theory Spec2Isabelle
  imports Complex_Main
begin

section \<open>Strings and JavaScript helpers\<close>

text \<open>
  JavaScript strings are modelled as HOL strings. \<open>String.prototype.trim\<close> removes
  white space and line terminators at both ends; within the characters of the model these
  are TAB, LF, VT, FF, CR, SPACE and NBSP.
\<close>

definition isWhiteSpace :: "char \<Rightarrow> bool" where
  "isWhiteSpace c = (of_char c \<in> {9, 10, 11, 12, 13, 32, 160 :: nat})"

definition trim :: "string \<Rightarrow> string" where
  "trim s = rev (dropWhile isWhiteSpace (rev (dropWhile isWhiteSpace s)))"

text \<open>\<open>s.charAt(k)\<close>: the one-character string at index \<open>k\<close>, the empty string out of range.\<close>

definition charAt :: "string \<Rightarrow> int \<Rightarrow> string" where
  "charAt s k = (if 0 \<le> k \<and> k < int (length s) then [s ! nat k] else [])"

text \<open>A value is truthy as a string-or-null when it is a non-empty string.\<close>

fun truthy :: "string option \<Rightarrow> bool" where
  "truthy None = False"
| "truthy (Some s) = (s \<noteq> [])"

section \<open>room-utils.ts\<close>

subsection \<open>generateRoomCode\<close>

definition chars :: string where
  "chars = ''ABCDEFGHIJKLMNPQRSTUVWXYZ23456789''"

text \<open>
  The loop \<open>for (let i = 0; i < 8; i++)\<close>. The \<open>i\<close>-th call of \<open>Math.random()\<close> is
  \<open>random i\<close>, a number that the language guarantees to lie in the interval from 0
  (included) to 1 (excluded).
\<close>

definition randomChar :: "(nat \<Rightarrow> real) \<Rightarrow> nat \<Rightarrow> string" where
  \<comment> \<open>\<open>chars.charAt(Math.floor(Math.random() * chars.length))\<close>\<close>
  "randomChar random i = charAt chars \<lfloor>random i * real (length chars)\<rfloor>"

function generateRoomCode_loop :: "(nat \<Rightarrow> real) \<Rightarrow> nat \<Rightarrow> string \<Rightarrow> string" where
  "generateRoomCode_loop random i code =
     (if i < 8 then
        generateRoomCode_loop random (Suc i)
          ((if i = 4 then code @ ''-'' else code) @ randomChar random i)
      else code)"
  by pat_completeness auto
termination
  by (relation "measure (\<lambda>(random, i, code). 8 - i)") auto

declare generateRoomCode_loop.simps [simp del]

definition generateRoomCode :: "(nat \<Rightarrow> real) \<Rightarrow> string" where
  "generateRoomCode random = generateRoomCode_loop random 0 []"

text \<open>A random source that gives the same number at every call.\<close>

definition constantly :: "real \<Rightarrow> nat \<Rightarrow> real" where
  "constantly r i = r"

subsection \<open>isValidRoomCode\<close>

text \<open>
  The regular expression \<open>/^[A-Z0-9]{4}-[A-Z0-9]{4}$/\<close> is kept as a regular expression:
  a small syntax of the constructs it uses and a backtracking matcher that returns every
  remainder of the input after a match of a prefix.
\<close>

datatype regex =
    Lit char
  | CharClass "(char \<times> char) list"
  | Times regex nat
  | Cat regex regex

definition inRanges :: "(char \<times> char) list \<Rightarrow> char \<Rightarrow> bool" where
  "inRanges rs c =
     list_ex (\<lambda>(lo, hi). (of_char lo :: nat) \<le> of_char c \<and> (of_char c :: nat) \<le> of_char hi) rs"

text \<open>\<open>repeat n m\<close>: the matcher \<open>m\<close> applied exactly \<open>n\<close> times in sequence (the quantifier \<open>{n}\<close>).\<close>

fun repeat :: "nat \<Rightarrow> (string \<Rightarrow> string list) \<Rightarrow> string \<Rightarrow> string list" where
  "repeat 0 m s = [s]"
| "repeat (Suc n) m s = concat (map (repeat n m) (m s))"

fun matches :: "regex \<Rightarrow> string \<Rightarrow> string list" where
  "matches (Lit c) s = (case s of [] \<Rightarrow> [] | x # xs \<Rightarrow> if x = c then [xs] else [])"
| "matches (CharClass rs) s = (case s of [] \<Rightarrow> [] | x # xs \<Rightarrow> if inRanges rs x then [xs] else [])"
| "matches (Times r n) s = repeat n (\<lambda>t. matches r t) s"
| "matches (Cat r1 r2) s = concat (map (matches r2) (matches r1 s))"

text \<open>\<open>/^r$/.test(s)\<close> without flags: the whole input matches.\<close>

definition test :: "regex \<Rightarrow> string \<Rightarrow> bool" where
  "test r s = ([] \<in> set (matches r s))"

definition roomCodeClass :: regex where
  "roomCodeClass = CharClass [(CHR ''A'', CHR ''Z''), (CHR ''0'', CHR ''9'')]"

definition roomCodeRegex :: regex where
  "roomCodeRegex = Cat (Times roomCodeClass 4) (Cat (Lit CHR ''-'') (Times roomCodeClass 4))"

definition isValidRoomCode :: "string \<Rightarrow> bool" where
  "isValidRoomCode code = test roomCodeRegex code"

text \<open>The uppercase letters and the digits, written out.\<close>

definition codeChars :: string where
  "codeChars = ''ABCDEFGHIJKLMNOPQRSTUVWXYZ0123456789''"

subsection \<open>formatDisplayName\<close>

definition formatDisplayName :: "string \<Rightarrow> string" where
  "formatDisplayName name = take 25 (trim name)"

section \<open>The backing database service\<close>

text \<open>
  Rows of the tables as the migration declares them, restricted to the columns the client
  reads. A \<open>timestamptz\<close> column is modelled by the instant it denotes (milliseconds since
  the epoch); the client receives it as an ISO string and reads it with \<open>new Date(...)\<close>.
  Columns are prefixed by their table, since several tables share column names.
\<close>

record room =
  r_id :: string
  r_code :: string
  r_title :: string
  r_description :: "string option"
  r_password_hash :: "string option"
  r_expiry_at :: "int option"

record ban =
  b_id :: string
  b_room_id :: string
  b_display_name :: string
  b_expires_at :: "int option"

text \<open>
  What awaiting a query gives: \<open>Data x\<close> is \<open>{ data: x, error: null }\<close>, \<open>Failure\<close> is
  \<open>{ data: null, error }\<close>, and \<open>Rejected\<close> is a promise that rejects, so that the
  \<open>await\<close> throws. The state of the connection to a table decides which.
\<close>

datatype 'a reply = Data 'a | Failure | Rejected

datatype link = Up | Failing | Throwing

fun request :: "link \<Rightarrow> 'a reply \<Rightarrow> 'a reply" where
  "request Up r = r"
| "request Failing r = Failure"
| "request Throwing r = Rejected"

text \<open>\<open>.single()\<close>: an error unless the filters leave exactly one row.\<close>

fun single :: "'a list \<Rightarrow> 'a reply" where
  "single [x] = Data x"
| "single rows = Failure"

record backend =
  rooms :: "room list"
  rooms_link :: link
  bans :: "ban list"
  bans_link :: link

text \<open>\<open>supabase.from('rooms').select(...).eq('code', roomCode).single()\<close>\<close>

definition selectRoomByCode :: "backend \<Rightarrow> string \<Rightarrow> room reply" where
  "selectRoomByCode be c = request (rooms_link be) (single (filter (\<lambda>r. r_code r = c) (rooms be)))"

text \<open>
  The filter \<open>.or('expires_at.is.null,expires_at.gt.now()')\<close> of the ban lookup, with
  \<open>now\<close> the time of the request.
\<close>

definition banInForce :: "int \<Rightarrow> ban \<Rightarrow> bool" where
  "banInForce now b = (case b_expires_at b of None \<Rightarrow> True | Some t \<Rightarrow> now < t)"

text \<open>
  The migration enables row level security on \<open>bans\<close> and the migrations declare no policy
  for that table, so a select made by the client sees none of its rows (and gets no error):
  the policy of \<open>bans\<close> is the one that admits nothing. (The table \<open>rooms\<close> has the policy
  \<open>Rooms are viewable by everyone\<close>, which admits every row.)
\<close>

definition bans_policy :: "ban \<Rightarrow> bool" where
  "bans_policy b = False"

definition selectBans :: "backend \<Rightarrow> int \<Rightarrow> string \<Rightarrow> string \<Rightarrow> ban list reply" where
  "selectBans be now roomId displayName =
     request (bans_link be)
       (Data (take 1 (filter (\<lambda>b. bans_policy b \<and> b_room_id b = roomId
                                   \<and> b_display_name b = displayName
                                   \<and> banInForce now b) (bans be))))"

text \<open>
  \<open>isDisplayNameBanned\<close> returns \<open>!error && data && data.length > 0\<close>; \<open>None\<close> is the
  rejected promise, which the caller's \<open>await\<close> rethrows.
\<close>

definition isDisplayNameBanned :: "backend \<Rightarrow> int \<Rightarrow> string \<Rightarrow> string \<Rightarrow> bool option" where
  "isDisplayNameBanned be now roomId displayName =
     (case selectBans be now roomId displayName of
        Data rows \<Rightarrow> Some (rows \<noteq> [])
      | Failure \<Rightarrow> Some False
      | Rejected \<Rightarrow> None)"

section \<open>Notifications and local storage\<close>

datatype variant = Default | Destructive

record toast =
  t_title :: string
  t_description :: string
  t_variant :: variant

definition destructive :: "string \<Rightarrow> string \<Rightarrow> toast" where
  "destructive a b = \<lparr>t_title = a, t_description = b, t_variant = Destructive\<rparr>"

definition plain :: "string \<Rightarrow> string \<Rightarrow> toast" where
  "plain a b = \<lparr>t_title = a, t_description = b, t_variant = Default\<rparr>"

text \<open>
  The entry \<open>JSON.stringify({ roomCode, displayName, joinedAt })\<close> kept under the key
  \<open>blacksite_session\<close>; other keys (the owner tokens) hold plain text.
\<close>

record session_entry =
  se_roomCode :: string
  se_displayName :: string
  se_joinedAt :: int

datatype stored = SessionJson session_entry | Text string

type_synonym storage = "string \<rightharpoonup> stored"

section \<open>The join dialog (JoinRoomModal)\<close>

datatype step = CodeStep | DetailsStep

record room_info =
  ri_title :: string
  ri_description :: "string option"
  requiresPassword :: bool

text \<open>
  The component state, the \<open>onJoinSuccess\<close> property (optional) and what the handlers do
  to the world around them: notifications shown, local storage, calls of the callbacks.
\<close>

record join_modal =
  roomCode :: string
  displayName :: string
  password :: string
  isJoining :: bool
  step :: step
  roomInfo :: "room_info option"
  toasts :: "toast list"
  localStorage :: storage
  onJoinSuccess_given :: bool
  onJoinSuccess_calls :: "(string \<times> string) list"
  onOpenChange_calls :: "bool list"

text \<open>The state of a dialog just opened (the initial values of its \<open>useState\<close> hooks).\<close>

definition initialModal :: join_modal where
  "initialModal =
     \<lparr>roomCode = [], displayName = [], password = [], isJoining = False, step = CodeStep,
      roomInfo = None, toasts = [], localStorage = Map.empty, onJoinSuccess_given = True,
      onJoinSuccess_calls = [], onOpenChange_calls = []\<rparr>"

definition notify :: "toast \<Rightarrow> join_modal \<Rightarrow> join_modal" where
  "notify t s = s\<lparr>toasts := toasts s @ [t]\<rparr>"

definition expired :: "int \<Rightarrow> room \<Rightarrow> bool" where
  \<comment> \<open>\<open>roomData.expiry_at && new Date(roomData.expiry_at) < new Date()\<close>\<close>
  "expired now r = (case r_expiry_at r of None \<Rightarrow> False | Some t \<Rightarrow> t < now)"

definition validateRoomCode :: "backend \<Rightarrow> int \<Rightarrow> join_modal \<Rightarrow> join_modal" where
  "validateRoomCode be now s =
     (if trim (roomCode s) = [] then
        notify (destructive ''Room code required'' ''Please enter a room code'') s
      else if \<not> isValidRoomCode (roomCode s) then
        notify (destructive ''Invalid format'' ''Room code must be in format ABCD-1234'') s
      else
        (case selectRoomByCode be (roomCode s) of
           Rejected \<Rightarrow>
             (notify (destructive ''Error'' ''Failed to validate room code. Please try again.'') s)
               \<lparr>isJoining := False\<rparr>
         | Failure \<Rightarrow>
             (notify (destructive ''Room not found'' ''Please check the code and try again.'') s)
               \<lparr>isJoining := False\<rparr>
         | Data roomData \<Rightarrow>
             if expired now roomData then
               (notify (destructive ''Room expired'' ''This room is no longer available.'') s)
                 \<lparr>isJoining := False\<rparr>
             else
               s\<lparr>roomInfo := Some \<lparr>ri_title = r_title roomData,
                                    ri_description = r_description roomData,
                                    requiresPassword = truthy (r_password_hash roomData)\<rparr>,
                 step := DetailsStep,
                 isJoining := False\<rparr>))"

definition resetModal :: "join_modal \<Rightarrow> join_modal" where
  "resetModal s =
     s\<lparr>roomCode := [], displayName := [], password := [], step := CodeStep, roomInfo := None,
       onOpenChange_calls := onOpenChange_calls s @ [False]\<rparr>"

text \<open>
  \<open>joinRoom\<close>, with the hash function (SHA-256 in hexadecimal, from the platform or from
  \<open>js-sha256\<close>) as the parameter \<open>hashString\<close>.
\<close>

definition passwordRejected :: "(string \<Rightarrow> string) \<Rightarrow> string \<Rightarrow> room \<Rightarrow> bool" where
  \<comment> \<open>\<open>roomData.password_hash && password\<close> and then \<open>passwordHash !== roomData.password_hash\<close>\<close>
  "passwordRejected hashString pw r =
     (case r_password_hash r of
        None \<Rightarrow> False
      | Some h \<Rightarrow> h \<noteq> [] \<and> pw \<noteq> [] \<and> hashString pw \<noteq> h)"

definition joinRoom :: "(string \<Rightarrow> string) \<Rightarrow> backend \<Rightarrow> int \<Rightarrow> join_modal \<Rightarrow> join_modal" where
  "joinRoom hashString be now s =
     (let formattedName = formatDisplayName (displayName s) in
      if formattedName = [] then
        notify (destructive ''Display name required'' ''Please enter a display name'') s
      else if (case roomInfo s of None \<Rightarrow> False | Some ri \<Rightarrow> requiresPassword ri)
              \<and> trim (password s) = [] then
        notify (destructive ''Password required'' ''This room requires a password'') s
      else
        (case selectRoomByCode be (roomCode s) of
           Rejected \<Rightarrow>
             (notify (destructive ''Error joining room'' ''Please try again.'') s)
               \<lparr>isJoining := False\<rparr>
         | Failure \<Rightarrow>
             (notify (destructive ''Room not found'' ''The room may have been deleted.'') s)
               \<lparr>isJoining := False\<rparr>
         | Data roomData \<Rightarrow>
             if passwordRejected hashString (password s) roomData then
               (notify (destructive ''Incorrect password''
                          ''Please check the password and try again.'') s)
                 \<lparr>isJoining := False\<rparr>
             else
               (case isDisplayNameBanned be now (r_id roomData) formattedName of
                  None \<Rightarrow>
                    (notify (destructive ''Error joining room'' ''Please try again.'') s)
                      \<lparr>isJoining := False\<rparr>
                | Some True \<Rightarrow>
                    (notify (destructive ''Display name banned''
                               ''This display name is not allowed in this room.'') s)
                      \<lparr>isJoining := False\<rparr>
                | Some False \<Rightarrow>
                    (let s1 = s\<lparr>localStorage := (localStorage s)(''blacksite_session'' \<mapsto>
                                   SessionJson \<lparr>se_roomCode = roomCode s,
                                                se_displayName = formattedName,
                                                se_joinedAt = now\<rparr>)\<rparr>;
                         s2 = notify (plain ''Joined room successfully!''
                                        (''Welcome to '' @ (case roomInfo s of
                                                              None \<Rightarrow> ''undefined''
                                                            | Some ri \<Rightarrow> ri_title ri))) s1;
                         s3 = (if onJoinSuccess_given s then
                                 s2\<lparr>onJoinSuccess_calls :=
                                      onJoinSuccess_calls s2 @ [(roomCode s, formattedName)]\<rparr>
                               else s2)
                     in (resetModal s3)\<lparr>isJoining := False\<rparr>))))"

section \<open>The inline join gate of RoomPage\<close>

record page_session =
  ps_displayName :: string
  ps_isOwner :: bool
  ps_ownerToken :: "string option"

record room_page =
  rp_roomCode :: string
  joinName :: string
  joining :: bool
  session :: "page_session option"
  rp_toasts :: "toast list"
  rp_localStorage :: storage

text \<open>The page opened on a room without a session, before a name is typed.\<close>

definition initialPage :: "string \<Rightarrow> room_page" where
  "initialPage c =
     \<lparr>rp_roomCode = c, joinName = [], joining = False, session = None, rp_toasts = [],
      rp_localStorage = Map.empty\<rparr>"

text \<open>\<open>localStorage.getItem(key)\<close> read as text; \<open>None\<close> is \<open>null\<close>.\<close>

definition getItem :: "storage \<Rightarrow> string \<Rightarrow> string option" where
  "getItem ls k =
     (case ls k of
        None \<Rightarrow> None
      | Some (Text t) \<Rightarrow> Some t
      | Some (SessionJson e) \<Rightarrow> Some ''{...}'')"

text \<open>The \<open>onClick\<close> handler of the join button that RoomPage shows when there is no session.\<close>

definition inlineJoin :: "int \<Rightarrow> room_page \<Rightarrow> room_page" where
  "inlineJoin now s =
     (let name = formatDisplayName (joinName s) in
      if name = [] then s
      else
        (let ls = (rp_localStorage s)(''blacksite_session'' \<mapsto>
                     SessionJson \<lparr>se_roomCode = rp_roomCode s, se_displayName = name,
                                  se_joinedAt = now\<rparr>);
             ownerData = getItem ls (''blacksite_owner_'' @ rp_roomCode s)
         in s\<lparr>rp_localStorage := ls,
               session := Some \<lparr>ps_displayName = name,
                                 ps_isOwner = truthy ownerData,
                                 ps_ownerToken = (if truthy ownerData then ownerData else None)\<rparr>,
               rp_toasts := rp_toasts s @ [plain ''Welcome'' (''Joined as '' @ name)],
               joining := False\<rparr>))"

section \<open>The post composer (PostComposer)\<close>

record upload_file =
  f_name :: string
  f_type :: string
  f_size :: nat

text \<open>
  A value thrown and caught: a JavaScript \<open>Error\<close> with its message, or any other value (the
  error object of a reply).
\<close>

datatype thrown = JsError string | OtherValue

datatype outcome = Done | Errored thrown | Threw thrown

record media_item =
  m_url :: string
  m_type :: string
  m_size :: nat

record post_payload =
  pl_room_id :: string
  pl_author_display :: string
  pl_content :: string
  pl_media :: "media_item list"

text \<open>
  The services as the composer meets them: the outcome of the storage upload of a file, of
  the row inserted into \<open>uploads\<close> for it, and of an insert into \<open>posts\<close>; and the public
  URL the storage service gives a file.
\<close>

record services =
  storage_upload :: "upload_file \<Rightarrow> outcome"
  uploads_insert :: "upload_file \<Rightarrow> outcome"
  posts_insert :: "post_payload \<Rightarrow> outcome"
  publicUrl :: "upload_file \<Rightarrow> string"

record composer =
  pc_roomId :: string
  pc_displayName :: string
  content :: string
  files :: "upload_file list"
  isPosting :: bool
  pc_toasts :: "toast list"
  uploads_done :: "upload_file list"
  posts_requests :: "post_payload list"
  onPostCreated_calls :: nat

text \<open>The composer as it is mounted in a room, with nothing sent yet.\<close>

definition initialComposer :: "string \<Rightarrow> string \<Rightarrow> composer" where
  "initialComposer roomId name =
     \<lparr>pc_roomId = roomId, pc_displayName = name, content = [], files = [], isPosting = False,
      pc_toasts = [], uploads_done = [], posts_requests = [], onPostCreated_calls = 0\<rparr>"

definition startsWith :: "string \<Rightarrow> string \<Rightarrow> bool" where
  "startsWith s p = (take (length p) s = p)"

text \<open>
  \<open>uploadSelectedFiles\<close>: the loop over the selected files. The result is the files sent to
  storage so far with either the media uploaded or the value thrown.
\<close>

fun uploadSelectedFiles :: "services \<Rightarrow> upload_file list \<Rightarrow> upload_file list \<times> (thrown + media_item list)" where
  "uploadSelectedFiles sv [] = ([], Inr [])"
| "uploadSelectedFiles sv (f # fs) =
     (case storage_upload sv f of
        Threw e \<Rightarrow> ([f], Inl e)
      | Errored e \<Rightarrow>
          ([f], Inl (JsError (''Failed to upload '' @ f_name f
                     @ ''. Ensure a public 'media' bucket exists in Supabase Storage.'')))
      | Done \<Rightarrow>
          (case uploads_insert sv f of
             Threw e \<Rightarrow> ([f], Inl e)
           | _ \<Rightarrow>
              (case uploadSelectedFiles sv fs of
                 (sent, Inl e) \<Rightarrow> (f # sent, Inl e)
               | (sent, Inr ms) \<Rightarrow>
                   (f # sent,
                    Inr (\<lparr>m_url = publicUrl sv f,
                          m_type = (if startsWith (f_type f) ''image/'' then ''image'' else ''video''),
                          m_size = f_size f\<rparr> # ms)))))"

definition errorToast :: "thrown \<Rightarrow> toast" where
  \<comment> \<open>\<open>error instanceof Error ? error.message : "Failed to create post. Please try again."\<close>\<close>
  "errorToast e =
     destructive ''Error''
       (case e of JsError msg \<Rightarrow> msg | OtherValue \<Rightarrow> ''Failed to create post. Please try again.'')"

definition handlePost :: "services \<Rightarrow> composer \<Rightarrow> composer" where
  "handlePost sv s =
     (if trim (content s) = [] \<and> files s = [] then
        s\<lparr>pc_toasts := pc_toasts s
             @ [destructive ''Content required'' ''Add text or attach media to post'']\<rparr>
      else
        (case uploadSelectedFiles sv (files s) of
           (sent, Inl e) \<Rightarrow>
             s\<lparr>uploads_done := uploads_done s @ sent,
               pc_toasts := pc_toasts s @ [errorToast e],
               isPosting := False\<rparr>
         | (sent, Inr mediaUploads) \<Rightarrow>
             (let payload = \<lparr>pl_room_id = pc_roomId s, pl_author_display = pc_displayName s,
                             pl_content = trim (content s), pl_media = mediaUploads\<rparr>;
                  s1 = s\<lparr>uploads_done := uploads_done s @ sent,
                         posts_requests := posts_requests s @ [payload]\<rparr>
              in case posts_insert sv payload of
                   Done \<Rightarrow>
                     s1\<lparr>content := [], files := [],
                        onPostCreated_calls := Suc (onPostCreated_calls s1),
                        pc_toasts := pc_toasts s1
                          @ [plain ''Post created''
                               (if files s \<noteq> [] then ''Your post and media have been shared''
                                else ''Your post has been shared with the room'')],
                        isPosting := False\<rparr>
                 | Errored e \<Rightarrow>
                     s1\<lparr>pc_toasts := pc_toasts s1 @ [errorToast e], isPosting := False\<rparr>
                 | Threw e \<Rightarrow>
                     s1\<lparr>pc_toasts := pc_toasts s1 @ [errorToast e], isPosting := False\<rparr>)))"

section \<open>The room hook (useRoom)\<close>

subsection \<open>organizeComments\<close>

record comment =
  c_id :: string
  c_post_id :: string
  c_parent_comment_id :: "string option"
  c_author_display :: string
  c_content :: string
  c_created_at :: int
  c_deleted_at :: "int option"

text \<open>
  The objects \<open>{ ...comment, replies: [] }\<close> live in a store: an address is the position of
  the object in allocation order, and a \<open>replies\<close> array holds addresses, since the same
  object is shared by \<open>commentMap\<close>, by \<open>rootComments\<close> and by the array of its parent.
\<close>

record cobj =
  cmt :: comment
  replies :: "nat list"

type_synonym store = "cobj list"

text \<open>First pass: one new object per comment, entered into \<open>commentMap\<close> under its id.\<close>

fun firstPass :: "comment list \<Rightarrow> store \<times> (string \<rightharpoonup> nat) \<Rightarrow> store \<times> (string \<rightharpoonup> nat)" where
  "firstPass [] (h, commentMap) = (h, commentMap)"
| "firstPass (c # cs) (h, commentMap) =
     firstPass cs (h @ [\<lparr>cmt = c, replies = []\<rparr>], commentMap(c_id c \<mapsto> length h))"

text \<open>\<open>parent.replies.push(x)\<close> on the object at address \<open>p\<close>.\<close>

definition pushReply :: "nat \<Rightarrow> nat \<Rightarrow> store \<Rightarrow> store" where
  "pushReply p x h = h[p := (h ! p)\<lparr>replies := replies (h ! p) @ [x]\<rparr>]"

text \<open>
  Second pass. \<open>commentMap.get(comment.id)!\<close> is always there, the first pass having entered
  every id (lemma \<open>firstPass_dom\<close> below); the model leaves the state as it is otherwise.
\<close>

fun secondPass :: "(string \<rightharpoonup> nat) \<Rightarrow> comment list \<Rightarrow> store \<times> nat list \<Rightarrow> store \<times> nat list" where
  "secondPass commentMap [] (h, rootComments) = (h, rootComments)"
| "secondPass commentMap (c # cs) (h, rootComments) =
     (case commentMap (c_id c) of
        None \<Rightarrow> secondPass commentMap cs (h, rootComments)
      | Some commentWithReplies \<Rightarrow>
          if truthy (c_parent_comment_id c) then
            (case commentMap (the (c_parent_comment_id c)) of
               Some parent \<Rightarrow>
                 secondPass commentMap cs (pushReply parent commentWithReplies h, rootComments)
             | None \<Rightarrow> secondPass commentMap cs (h, rootComments))
          else secondPass commentMap cs (h, rootComments @ [commentWithReplies]))"

text \<open>
  The result is the array of root references, sorted by \<open>created_at\<close> (the sort of the
  language is stable), together with the store that the references point into.
\<close>

definition organizeComments :: "comment list \<Rightarrow> store \<times> nat list" where
  "organizeComments flatComments =
     (case firstPass flatComments ([], Map.empty) of
        (h0, commentMap) \<Rightarrow>
          (case secondPass commentMap flatComments (h0, []) of
             (h, rootComments) \<Rightarrow>
               (h, sort_key (\<lambda>a. c_created_at (cmt (h ! a))) rootComments)))"

text \<open>\<open>commentMap\<close> as the first pass leaves it.\<close>

definition commentMapOf :: "comment list \<Rightarrow> (string \<rightharpoonup> nat)" where
  "commentMapOf flatComments = snd (firstPass flatComments ([], Map.empty))"

text \<open>
  What the second pass adds, written as list expressions: the references pushed onto the
  \<open>replies\<close> array of the object at address \<open>p\<close>, and those pushed onto \<open>rootComments\<close>
  (lemma \<open>secondPass_effect\<close> below relates them to \<open>secondPass\<close>).
\<close>

definition pushedTo :: "(string \<rightharpoonup> nat) \<Rightarrow> comment list \<Rightarrow> nat \<Rightarrow> nat list" where
  "pushedTo commentMap cs p =
     concat (map (\<lambda>c. case commentMap (c_id c) of
                          None \<Rightarrow> []
                        | Some a \<Rightarrow>
                            if truthy (c_parent_comment_id c)
                               \<and> commentMap (the (c_parent_comment_id c)) = Some p
                            then [a] else []) cs)"

definition rootRefs :: "(string \<rightharpoonup> nat) \<Rightarrow> comment list \<Rightarrow> nat list" where
  "rootRefs commentMap cs =
     concat (map (\<lambda>c. case commentMap (c_id c) of
                          None \<Rightarrow> []
                        | Some a \<Rightarrow> if truthy (c_parent_comment_id c) then [] else [a]) cs)"

text \<open>
  Reading the returned tree: the references at depth \<open>d\<close>, from left to right. Depth 0 is
  the returned array, depth \<open>d + 1\<close> the \<open>replies\<close> arrays of the objects at depth \<open>d\<close>.
\<close>

fun tree_level :: "store \<Rightarrow> nat list \<Rightarrow> nat \<Rightarrow> nat list" where
  "tree_level h rs 0 = rs"
| "tree_level h rs (Suc d) = concat (map (\<lambda>a. replies (h ! a)) (tree_level h rs d))"

text \<open>
  \<open>rooted flat k c\<close>: following \<open>parent_comment_id\<close> from \<open>c\<close> through comments of the list
  reaches, after \<open>k\<close> steps, a comment without parent.
\<close>

fun rooted :: "comment list \<Rightarrow> nat \<Rightarrow> comment \<Rightarrow> bool" where
  "rooted flat 0 c = (\<not> truthy (c_parent_comment_id c))"
| "rooted flat (Suc k) c =
     (truthy (c_parent_comment_id c)
      \<and> list_ex (\<lambda>p. c_parent_comment_id c = Some (c_id p) \<and> rooted flat k p) flat)"

subsection \<open>loadPosts\<close>

datatype jsonb = JsonArray "string list" | JsonOther

record post =
  p_id :: string
  p_room_id :: string
  p_author_display :: string
  p_content :: string
  p_media :: jsonb
  p_pinned :: bool
  p_created_at :: int
  p_deleted_at :: "int option"

record content_db =
  posts :: "post list"
  comments :: "comment list"
  posts_link :: link

text \<open>
  The row-security policies of the migration: a select sees a row of \<open>posts\<close> or of
  \<open>comments\<close> only when its \<open>deleted_at\<close> is null.
\<close>

definition posts_policy :: "post \<Rightarrow> bool" where
  "posts_policy p = (p_deleted_at p = None)"

definition comments_policy :: "comment \<Rightarrow> bool" where
  "comments_policy c = (c_deleted_at c = None)"

text \<open>
  The query of \<open>loadPosts\<close>: the visible posts of the room with \<open>deleted_at\<close> null, newest
  first, each with its visible comments embedded.
\<close>

definition selectPosts :: "content_db \<Rightarrow> string \<Rightarrow> (post \<times> comment list) list reply" where
  "selectPosts db roomId =
     request (posts_link db)
       (Data (map (\<lambda>p. (p, filter (\<lambda>c. comments_policy c \<and> c_post_id c = p_id p) (comments db)))
                (sort_key (\<lambda>p. - p_created_at p)
                   (filter (\<lambda>p. posts_policy p \<and> p_room_id p = roomId \<and> p_deleted_at p = None)
                      (posts db)))))"

record processed_post =
  pp_post :: post
  pp_media :: "string list"
  pp_comment_count :: nat
  pp_comments :: "store \<times> nat list"

definition processPost :: "post \<times> comment list \<Rightarrow> processed_post" where
  "processPost pc =
     (case pc of (p, cs) \<Rightarrow>
        \<lparr>pp_post = p,
         pp_media = (case p_media p of JsonArray xs \<Rightarrow> xs | JsonOther \<Rightarrow> []),
         pp_comment_count = length cs,
         pp_comments = organizeComments cs\<rparr>)"

text \<open>
  \<open>loadPosts\<close> on the state \<open>posts\<close> of the hook: on an error or an exception the list stays as
  it was; otherwise it becomes the processed rows.
\<close>

definition loadPosts :: "content_db \<Rightarrow> string \<Rightarrow> processed_post list \<Rightarrow> processed_post list" where
  "loadPosts db roomId posts_state =
     (case selectPosts db roomId of
        Data postsData \<Rightarrow> map processPost postsData
      | Failure \<Rightarrow> posts_state
      | Rejected \<Rightarrow> posts_state)"

section \<open>Sample data\<close>

text \<open>
  A room protected by a password (the hash is the SHA-256 of \<open>password\<close>), a room past its
  expiry, a ban without expiry, and a backend that answers every request.
\<close>

definition lockedRoom :: room where
  "lockedRoom =
     \<lparr>r_id = ''room-1'', r_code = ''ABCD-1234'', r_title = ''Locked'', r_description = None,
      r_password_hash = Some ''5e884898da28047151d0e56f8dc6292773603d0d6aabbdd62a11ef721d1542d8'',
      r_expiry_at = None\<rparr>"

definition expiredRoom :: room where
  "expiredRoom =
     \<lparr>r_id = ''room-2'', r_code = ''WXYZ-5678'', r_title = ''Gone'', r_description = None,
      r_password_hash = None, r_expiry_at = Some 1000\<rparr>"

definition trollBan :: ban where
  "trollBan =
     \<lparr>b_id = ''ban-1'', b_room_id = ''room-1'', b_display_name = ''troll'', b_expires_at = None\<rparr>"

definition sampleBackend :: backend where
  "sampleBackend =
     \<lparr>rooms = [lockedRoom, expiredRoom], rooms_link = Up, bans = [trollBan], bans_link = Up\<rparr>"

text \<open>
  Services whose storage works and whose \<open>posts\<close> table refuses every insert with an
  error object; and a table of posts with one live and one soft-deleted post.
\<close>

definition refusingServices :: services where
  "refusingServices =
     \<lparr>storage_upload = (\<lambda>f. Done), uploads_insert = (\<lambda>f. Done),
      posts_insert = (\<lambda>p. Errored OtherValue), publicUrl = (\<lambda>f. ''https://media/'' @ f_name f)\<rparr>"

definition livePost :: post where
  "livePost =
     \<lparr>p_id = ''post-1'', p_room_id = ''room-1'', p_author_display = ''bob'', p_content = ''hi'',
      p_media = JsonArray [], p_pinned = False, p_created_at = 10, p_deleted_at = None\<rparr>"

definition deletedPost :: post where
  "deletedPost =
     \<lparr>p_id = ''post-2'', p_room_id = ''room-1'', p_author_display = ''bob'', p_content = ''oops'',
      p_media = JsonArray [], p_pinned = False, p_created_at = 20, p_deleted_at = Some 30\<rparr>"

definition sampleContent :: content_db where
  "sampleContent = \<lparr>posts = [livePost, deletedPost], comments = [], posts_link = Up\<rparr>"

text \<open>
  Comments of one post: a comment without parent, a reply to it, a reply to that reply,
  and a reply whose parent is not among them.
\<close>

definition topComment :: comment where
  "topComment =
     \<lparr>c_id = ''c1'', c_post_id = ''post-1'', c_parent_comment_id = None, c_author_display = ''ann'',
      c_content = ''first'', c_created_at = 1, c_deleted_at = None\<rparr>"

definition replyComment :: comment where
  "replyComment =
     \<lparr>c_id = ''c2'', c_post_id = ''post-1'', c_parent_comment_id = Some ''c1'',
      c_author_display = ''bob'', c_content = ''second'', c_created_at = 2, c_deleted_at = None\<rparr>"

definition nestedReply :: comment where
  "nestedReply =
     \<lparr>c_id = ''c3'', c_post_id = ''post-1'', c_parent_comment_id = Some ''c2'',
      c_author_display = ''cat'', c_content = ''third'', c_created_at = 3, c_deleted_at = None\<rparr>"

definition orphanReply :: comment where
  "orphanReply =
     \<lparr>c_id = ''c4'', c_post_id = ''post-1'', c_parent_comment_id = Some ''c0'',
      c_author_display = ''dan'', c_content = ''fourth'', c_created_at = 4, c_deleted_at = None\<rparr>"

section \<open>Room codes\<close>

lemma generateRoomCode_unfold:
  "generateRoomCode random =
     randomChar random 0 @ randomChar random 1 @ randomChar random 2 @ randomChar random 3
       @ ''-'' @ randomChar random 4 @ randomChar random 5 @ randomChar random 6
       @ randomChar random 7"
  unfolding generateRoomCode_def
  by (simp add: generateRoomCode_loop.simps numeral_eq_Suc)

lemma randomChar_in_chars:
  assumes "0 \<le> random i" "random i < 1"
  shows "\<exists>c. randomChar random i = [c] \<and> c \<in> set chars"
proof -
  have len: "length chars = 33" by (simp add: chars_def)
  define k where "k = \<lfloor>random i * 33\<rfloor>"
  have k0: "0 \<le> k" using assms by (simp add: k_def)
  have "random i * 33 < 33" using assms by simp
  then have k1: "k < 33" by (simp add: k_def floor_less_iff)
  have "randomChar random i = charAt chars k" by (simp add: randomChar_def len k_def)
  also have "\<dots> = [chars ! nat k]" using k0 k1 len by (simp add: charAt_def)
  finally have "randomChar random i = [chars ! nat k]" .
  moreover have "nat k < length chars" using k0 k1 len by simp
  ultimately show ?thesis using nth_mem by blast
qed

lemma generateRoomCode_chars:
  assumes "\<And>i. 0 \<le> random i \<and> random i < 1"
  shows "\<exists>a b. generateRoomCode random = a @ ''-'' @ b \<and> length a = 4 \<and> length b = 4
           \<and> set a \<subseteq> set chars \<and> set b \<subseteq> set chars"
proof -
  have "\<exists>c. randomChar random i = [c] \<and> c \<in> set chars" for i
    using assms randomChar_in_chars by blast
  then obtain f where f: "\<And>i. randomChar random i = [f i] \<and> f i \<in> set chars" by metis
  let ?a = "[f 0, f 1, f 2, f 3]" and ?b = "[f 4, f 5, f 6, f 7]"
  have "generateRoomCode random = ?a @ ''-'' @ ?b" by (simp add: generateRoomCode_unfold f)
  moreover have "set ?a \<subseteq> set chars" "set ?b \<subseteq> set chars" using f by simp_all
  moreover have "length ?a = 4" "length ?b = 4" by simp_all
  ultimately show ?thesis by blast
qed

lemma hyphen_not_in_chars: "CHR ''-'' \<notin> set chars"
  by (simp add: chars_def)

text \<open>
  C5. Every string returned by \<open>generateRoomCode\<close> is an 8-character room code in the sense
  the repository gives the term (the form \<open>ABCD-1234\<close>): it holds exactly eight characters
  of the alphabet \<open>chars\<close>, in two groups of four, and the hyphen that separates the groups
  at index 4, which makes a string of length 9.
\<close>

theorem generateRoomCode_eight_characters:
  assumes "\<And>i. 0 \<le> random i \<and> random i < 1"
  shows "length (filter (\<lambda>c. c \<in> set chars) (generateRoomCode random)) = 8
         \<and> length (filter (\<lambda>c. c \<noteq> CHR ''-'') (generateRoomCode random)) = 8
         \<and> length (generateRoomCode random) = 9
         \<and> generateRoomCode random ! 4 = CHR ''-''
         \<and> set (take 4 (generateRoomCode random)) \<subseteq> set chars
         \<and> set (drop 5 (generateRoomCode random)) \<subseteq> set chars"
proof -
  obtain a b where ab: "generateRoomCode random = a @ ''-'' @ b" "length a = 4" "length b = 4"
      "set a \<subseteq> set chars" "set b \<subseteq> set chars"
    using assms generateRoomCode_chars [of random] by blast
  have fa: "filter (\<lambda>c. c \<in> set chars) a = a" "filter (\<lambda>c. c \<in> set chars) b = b"
    using ab(4,5) by (auto simp add: filter_id_conv)
  have "CHR ''-'' \<notin> set a" "CHR ''-'' \<notin> set b" using ab(4,5) hyphen_not_in_chars by auto
  then have fh: "filter (\<lambda>c. c \<noteq> CHR ''-'') a = a" "filter (\<lambda>c. c \<noteq> CHR ''-'') b = b"
    by (auto simp add: filter_id_conv)
  show ?thesis unfolding ab(1) using ab(2-) fa fh hyphen_not_in_chars by (simp add: nth_append)
qed

theorem generateRoomCode_eight_characters_witness:
  "length (filter (\<lambda>c. c \<in> set chars) (generateRoomCode (constantly 0))) = 8
   \<and> length (filter (\<lambda>c. c \<noteq> CHR ''-'') (generateRoomCode (constantly 0))) = 8
   \<and> length (generateRoomCode (constantly 0)) = 9
   \<and> generateRoomCode (constantly 0) ! 4 = CHR ''-''
   \<and> generateRoomCode (constantly 0) = ''AAAA-AAAA''"
proof -
  have e: "generateRoomCode (constantly 0) = ''AAAA-AAAA''"
    by (simp add: generateRoomCode_unfold randomChar_def constantly_def charAt_def chars_def)
  have h: "0 \<le> constantly 0 i \<and> constantly 0 i < 1" for i by (simp add: constantly_def)
  have "length (filter (\<lambda>c. c \<in> set chars) (generateRoomCode (constantly 0))) = 8
      \<and> length (filter (\<lambda>c. c \<noteq> CHR ''-'') (generateRoomCode (constantly 0))) = 8
      \<and> length (generateRoomCode (constantly 0)) = 9
      \<and> generateRoomCode (constantly 0) ! 4 = CHR ''-''
      \<and> set (take 4 (generateRoomCode (constantly 0))) \<subseteq> set chars
      \<and> set (drop 5 (generateRoomCode (constantly 0))) \<subseteq> set chars"
    using h generateRoomCode_eight_characters [of "constantly 0"] by blast
  then show ?thesis using e by blast
qed

lemma char_mem_by_code: "c \<in> set s \<longleftrightarrow> (of_char c :: nat) \<in> of_char ` set s"
proof -
  have "inj (of_char :: char \<Rightarrow> nat)" by (rule injI) simp
  then show ?thesis by (simp add: inj_image_mem_iff)
qed

lemma codeChars_codes:
  "(of_char ` set codeChars :: nat set) = {n. 65 \<le> n \<and> n \<le> 90 \<or> 48 \<le> n \<and> n \<le> 57}"
  unfolding codeChars_def
  apply (rule set_eqI)
  apply (simp del: of_char_eq_iff)
  apply arith
  done

lemma inRanges_codeChars:
  "inRanges [(CHR ''A'', CHR ''Z''), (CHR ''0'', CHR ''9'')] c \<longleftrightarrow> c \<in> set codeChars"
  by (subst char_mem_by_code [of c codeChars]) (simp add: codeChars_codes inRanges_def)

lemma repeat_class:
  "repeat n (\<lambda>t. matches (CharClass rs) t) s =
     (if n \<le> length s \<and> (\<forall>c \<in> set (take n s). inRanges rs c) then [drop n s] else [])"
proof (induction n arbitrary: s)
  case 0
  show ?case by simp
next
  case (Suc n)
  show ?case
  proof (cases s)
    case Nil
    then show ?thesis by simp
  next
    case (Cons x xs)
    show ?thesis
    proof (cases "inRanges rs x")
      case True
      then show ?thesis using Cons Suc.IH [of xs] by simp
    next
      case False
      then show ?thesis using Cons by simp
    qed
  qed
qed

lemma isValidRoomCode_shape:
  "isValidRoomCode s \<longleftrightarrow>
     length s = 9 \<and> (\<forall>c \<in> set (take 4 s). c \<in> set codeChars) \<and> s ! 4 = CHR ''-''
       \<and> (\<forall>c \<in> set (drop 5 s). c \<in> set codeChars)"
proof -
  have m4: "matches (Times roomCodeClass 4) t =
      (if 4 \<le> length t \<and> (\<forall>c \<in> set (take 4 t). c \<in> set codeChars) then [drop 4 t] else [])" for t
    by (simp add: roomCodeClass_def repeat_class inRanges_codeChars)
  have v: "isValidRoomCode s \<longleftrightarrow>
      [] \<in> set (concat (map (\<lambda>u. concat (map (matches (Times roomCodeClass 4)) (matches (Lit CHR ''-'') u)))
                           (matches (Times roomCodeClass 4) s)))"
    by (simp add: isValidRoomCode_def test_def roomCodeRegex_def del: matches.simps(3))
  show ?thesis
  proof (cases "4 \<le> length s \<and> (\<forall>c \<in> set (take 4 s). c \<in> set codeChars)")
    case False
    then show ?thesis unfolding v m4 by auto
  next
    case True
    show ?thesis
    proof (cases "drop 4 s")
      case Nil
      then show ?thesis using True unfolding v m4 by auto
    next
      case (Cons h t)
      have s: "s = take 4 s @ h # t" using Cons by (metis append_take_drop_id)
      have h: "s ! 4 = h" using True by (subst s) (simp add: nth_append)
      have t: "drop 5 s = t" using True by (subst s) simp
      have len: "length s = 5 + length t" using True by (subst s) simp
      show ?thesis
      proof (cases "h = CHR ''-''")
        case False
        then show ?thesis using True Cons h unfolding v m4 by simp
      next
        case dash: True
        have m: "matches (Times roomCodeClass 4) s = [CHR ''-'' # t]"
          using True Cons dash by (simp add: m4 del: matches.simps(3))
        have lhs: "isValidRoomCode s \<longleftrightarrow>
            4 \<le> length t \<and> (\<forall>c \<in> set (take 4 t). c \<in> set codeChars) \<and> drop 4 t = []"
          unfolding v m by (auto simp add: m4 simp del: matches.simps(3))
        show ?thesis
        proof (cases "length t = 4")
          case True
          then show ?thesis unfolding lhs using \<open>4 \<le> length s \<and> _\<close> h t len dash by simp
        next
          case False
          then show ?thesis unfolding lhs using len by auto
        qed
      qed
    qed
  qed
qed

lemma isValidRoomCode_iff:
  "isValidRoomCode s \<longleftrightarrow>
     (\<exists>a b. s = a @ ''-'' @ b \<and> length a = 4 \<and> length b = 4
            \<and> set a \<subseteq> set codeChars \<and> set b \<subseteq> set codeChars)"
proof
  assume "isValidRoomCode s"
  then have A: "length s = 9" "\<forall>c \<in> set (take 4 s). c \<in> set codeChars" "s ! 4 = CHR ''-''"
      "\<forall>c \<in> set (drop 5 s). c \<in> set codeChars"
    by (simp_all add: isValidRoomCode_shape)
  have "drop 4 s = s ! 4 # drop 5 s" using A(1) Cons_nth_drop_Suc [of 4 s] by simp
  then have "s = take 4 s @ ''-'' @ drop 5 s"
    using A(3) by (metis append_Cons append_Nil append_take_drop_id)
  moreover have "length (take 4 s) = 4" "length (drop 5 s) = 4" using A(1) by simp_all
  ultimately show "\<exists>a b. s = a @ ''-'' @ b \<and> length a = 4 \<and> length b = 4
            \<and> set a \<subseteq> set codeChars \<and> set b \<subseteq> set codeChars"
    using A(2,4) by blast
next
  assume "\<exists>a b. s = a @ ''-'' @ b \<and> length a = 4 \<and> length b = 4
            \<and> set a \<subseteq> set codeChars \<and> set b \<subseteq> set codeChars"
  then obtain a b where ab: "s = a @ ''-'' @ b" "length a = 4" "length b = 4"
      "set a \<subseteq> set codeChars" "set b \<subseteq> set codeChars" by blast
  show "isValidRoomCode s"
    unfolding isValidRoomCode_shape using ab by (auto simp add: nth_append)
qed

lemma chars_subset_codeChars: "set chars \<subseteq> set codeChars"
  by (simp add: chars_def codeChars_def)

text \<open>A generated code passes the format check.\<close>

lemma generateRoomCode_valid:
  assumes "\<And>i. 0 \<le> random i \<and> random i < 1"
  shows "isValidRoomCode (generateRoomCode random)"
  unfolding isValidRoomCode_iff
proof -
  obtain a b where ab: "generateRoomCode random = a @ ''-'' @ b" "length a = 4" "length b = 4"
      "set a \<subseteq> set chars" "set b \<subseteq> set chars"
    using assms generateRoomCode_chars [of random] by blast
  then show "\<exists>a b. generateRoomCode random = a @ ''-'' @ b \<and> length a = 4 \<and> length b = 4
      \<and> set a \<subseteq> set codeChars \<and> set b \<subseteq> set codeChars"
    using chars_subset_codeChars by blast
qed

text \<open>
  C9, at the input where the code departs from it: with \<open>Math.random()\<close> giving 0.25 at
  every call, index 8 of the alphabet is drawn each time and the code returned is
  \<open>IIII-IIII\<close>: it passes the format check and consists of the confusable letter I, which
  the alphabet \<open>chars\<close> holds.
\<close>

theorem generateRoomCode_draws_I:
  "generateRoomCode (constantly (1 / 4)) = ''IIII-IIII''
   \<and> CHR ''I'' \<in> set (generateRoomCode (constantly (1 / 4)))
   \<and> CHR ''I'' \<in> set chars"
  by (simp add: generateRoomCode_unfold randomChar_def constantly_def charAt_def chars_def)

lemma dropWhile_keeps: "xs \<noteq> [] \<Longrightarrow> \<not> P (hd xs) \<Longrightarrow> dropWhile P xs = xs"
  by (cases xs) simp_all

lemma valid_code_not_blank:
  assumes "isValidRoomCode s"
  shows "trim s = s" and "s \<noteq> []"
proof -
  have A: "length s = 9" "\<forall>c \<in> set (take 4 s). c \<in> set codeChars"
      "\<forall>c \<in> set (drop 5 s). c \<in> set codeChars"
    using assms by (simp_all add: isValidRoomCode_shape)
  have nw: "c \<in> set codeChars \<Longrightarrow> \<not> isWhiteSpace c" for c
    by (subst (asm) char_mem_by_code [of c codeChars]) (auto simp add: codeChars_codes isWhiteSpace_def)
  show ne: "s \<noteq> []" using A(1) by auto
  have "hd s \<in> set (take 4 s)" using ne by (cases s) (simp_all add: numeral_eq_Suc)
  then have h: "\<not> isWhiteSpace (hd s)" using A(2) nw by blast
  have "drop 5 s \<noteq> []" "last (drop 5 s) = last s" using A(1) by simp_all
  then have "last s \<in> set (drop 5 s)" using last_in_set by metis
  then have l: "\<not> isWhiteSpace (last s)" using A(3) nw by blast
  have 1: "dropWhile isWhiteSpace s = s" using dropWhile_keeps [of s isWhiteSpace] ne h by simp
  have "hd (rev s) = last s" "rev s \<noteq> []" using ne by (simp_all add: hd_rev)
  then have 2: "dropWhile isWhiteSpace (rev s) = rev s" using l dropWhile_keeps [of "rev s" isWhiteSpace] by simp
  show "trim s = s" by (simp add: trim_def 1 2)
qed

section \<open>The join dialog\<close>

text \<open>
  C8. \<open>isValidRoomCode\<close> accepts exactly the strings made of four characters among the
  uppercase letters and the digits, a hyphen, and four more such characters; and
  \<open>validateRoomCode\<close> on any other room code only shows a notification (\<open>Room code
  required\<close> for a blank code, \<open>Invalid format\<close> otherwise) and leaves the dialog as it was,
  whatever the backend holds.
\<close>

theorem isValidRoomCode_format:
  "(isValidRoomCode code \<longleftrightarrow>
      (\<exists>a b. code = a @ ''-'' @ b \<and> length a = 4 \<and> length b = 4
             \<and> set a \<subseteq> set codeChars \<and> set b \<subseteq> set codeChars))
   \<and> (\<not> isValidRoomCode (roomCode s) \<longrightarrow>
        validateRoomCode be now s
          = notify (destructive ''Room code required'' ''Please enter a room code'') s
        \<or> validateRoomCode be now s
          = notify (destructive ''Invalid format'' ''Room code must be in format ABCD-1234'') s)"
proof
  show "isValidRoomCode code \<longleftrightarrow>
      (\<exists>a b. code = a @ ''-'' @ b \<and> length a = 4 \<and> length b = 4
             \<and> set a \<subseteq> set codeChars \<and> set b \<subseteq> set codeChars)"
    by (rule isValidRoomCode_iff)
next
  show "\<not> isValidRoomCode (roomCode s) \<longrightarrow>
        validateRoomCode be now s
          = notify (destructive ''Room code required'' ''Please enter a room code'') s
        \<or> validateRoomCode be now s
          = notify (destructive ''Invalid format'' ''Room code must be in format ABCD-1234'') s"
    by (simp add: validateRoomCode_def)
qed

theorem isValidRoomCode_format_witness:
  "isValidRoomCode ''ABCD-1234''
   \<and> \<not> isValidRoomCode ''abcd-1234''
   \<and> validateRoomCode sampleBackend 0 (initialModal\<lparr>roomCode := ''abcd-1234''\<rparr>)
       = notify (destructive ''Invalid format'' ''Room code must be in format ABCD-1234'')
           (initialModal\<lparr>roomCode := ''abcd-1234''\<rparr>)"
proof -
  have v: "isValidRoomCode ''ABCD-1234''"
    using isValidRoomCode_format [of "''ABCD-1234''" initialModal sampleBackend 0]
    by (simp add: codeChars_def) (rule exI [of _ "''ABCD''"], simp)
  have nv: "\<not> isValidRoomCode ''abcd-1234''"
    by (simp add: isValidRoomCode_shape codeChars_def)
  have nb: "trim ''abcd-1234'' \<noteq> []"
    by (simp add: trim_def isWhiteSpace_def)
  show ?thesis
    using isValidRoomCode_format
      [of "''ABCD-1234''" "initialModal\<lparr>roomCode := ''abcd-1234''\<rparr>" sampleBackend 0] v nv nb
    by (simp add: validateRoomCode_def)
qed

text \<open>
  C4. When the code typed is well formed and the lookup returns a room whose \<open>expiry_at\<close>
  is set and strictly earlier than the current time, \<open>validateRoomCode\<close> shows
  \<open>Room expired\<close> and changes nothing else but the busy flag: \<open>roomInfo\<close> is not set and the
  step stays where it was.
\<close>

theorem validateRoomCode_expired:
  assumes "isValidRoomCode (roomCode s)"
    and "selectRoomByCode be (roomCode s) = Data r"
    and "r_expiry_at r = Some t" and "t < now"
  shows "validateRoomCode be now s
           = (notify (destructive ''Room expired'' ''This room is no longer available.'') s)
               \<lparr>isJoining := False\<rparr>
         \<and> roomInfo (validateRoomCode be now s) = roomInfo s
         \<and> step (validateRoomCode be now s) = step s
         \<and> toasts (validateRoomCode be now s)
             = toasts s @ [destructive ''Room expired'' ''This room is no longer available.'']"
proof -
  have "trim (roomCode s) \<noteq> []" using valid_code_not_blank [OF assms(1)] by simp
  then have "validateRoomCode be now s
           = (notify (destructive ''Room expired'' ''This room is no longer available.'') s)
               \<lparr>isJoining := False\<rparr>"
    using assms by (simp add: validateRoomCode_def expired_def)
  then show ?thesis by (simp add: notify_def)
qed

theorem validateRoomCode_expired_witness:
  "roomInfo (validateRoomCode sampleBackend 2000 (initialModal\<lparr>roomCode := ''WXYZ-5678''\<rparr>)) = None
   \<and> step (validateRoomCode sampleBackend 2000 (initialModal\<lparr>roomCode := ''WXYZ-5678''\<rparr>)) = CodeStep
   \<and> toasts (validateRoomCode sampleBackend 2000 (initialModal\<lparr>roomCode := ''WXYZ-5678''\<rparr>))
       = [destructive ''Room expired'' ''This room is no longer available.'']"
proof -
  let ?s = "initialModal\<lparr>roomCode := ''WXYZ-5678''\<rparr>"
  have 1: "isValidRoomCode (roomCode ?s)"
    by (simp add: isValidRoomCode_shape codeChars_def)
  have 2: "selectRoomByCode sampleBackend (roomCode ?s) = Data expiredRoom"
    by (simp add: selectRoomByCode_def sampleBackend_def lockedRoom_def expiredRoom_def)
  have 3: "r_expiry_at expiredRoom = Some 1000" by (simp add: expiredRoom_def)
  have 5: "(1000::int) < 2000" by simp
  have 4: "roomInfo ?s = None" "step ?s = CodeStep" "toasts ?s = []"
    by (simp_all add: initialModal_def)
  have "roomInfo (validateRoomCode sampleBackend 2000 ?s) = roomInfo ?s
      \<and> step (validateRoomCode sampleBackend 2000 ?s) = step ?s
      \<and> toasts (validateRoomCode sampleBackend 2000 ?s)
          = toasts ?s @ [destructive ''Room expired'' ''This room is no longer available.'']"
    using validateRoomCode_expired [OF 1 2 3 5] by (rule conjunct2)
  then show ?thesis by (simp only: 4 append_Nil)
qed

text \<open>
  The password gate of \<open>joinRoom\<close> when the dialog knows that the room requires a password:
  a session is stored or \<open>onJoinSuccess\<close> is called only if the hash of the password typed
  is the stored hash.
\<close>

lemma joinRoom_password_gate:
  assumes "roomInfo s = Some ri" and "requiresPassword ri"
    and "selectRoomByCode be (roomCode s) = Data r"
    and "r_password_hash r = Some h" and "h \<noteq> []"
    and "localStorage (joinRoom hashString be now s) \<noteq> localStorage s
         \<or> onJoinSuccess_calls (joinRoom hashString be now s) \<noteq> onJoinSuccess_calls s"
  shows "hashString (password s) = h"
proof (rule ccontr)
  assume ne: "hashString (password s) \<noteq> h"
  show False
  proof (cases "trim (password s) = []")
    case True
    then show ?thesis using assms
      by (simp add: joinRoom_def Let_def notify_def split: if_splits)
  next
    case False
    then have "password s \<noteq> []" by (auto simp add: trim_def)
    then have "passwordRejected hashString (password s) r"
      using assms(4,5) ne by (simp add: passwordRejected_def)
    then show ?thesis using assms
      by (simp add: joinRoom_def Let_def notify_def split: if_splits)
  qed
qed

lemma joinRoom_mismatch_reported:
  assumes "formatDisplayName (displayName s) \<noteq> []"
    and "selectRoomByCode be (roomCode s) = Data r"
    and "r_password_hash r = Some h" and "h \<noteq> []"
    and "trim (password s) \<noteq> []" and "hashString (password s) \<noteq> h"
  shows "joinRoom hashString be now s
           = (notify (destructive ''Incorrect password''
                        ''Please check the password and try again.'') s)\<lparr>isJoining := False\<rparr>"
proof -
  have "password s \<noteq> []" using assms(5) by (auto simp add: trim_def)
  then have "passwordRejected hashString (password s) r"
    using assms by (simp add: passwordRejected_def)
  then show ?thesis using assms by (simp add: joinRoom_def Let_def)
qed

text \<open>
  C2, at the input where the code departs from it. The dialog holds the code of the locked
  room, a \<open>roomInfo\<close> that says no password is required (it was fetched for another code,
  edited while the lookup was running) and an empty password. \<open>joinRoom\<close> then stores the
  session and calls \<open>onJoinSuccess\<close> without computing any hash, whatever the hash
  function is.
\<close>

theorem joinRoom_empty_password_joins:
  "localStorage
     (joinRoom hashString sampleBackend 7
        (initialModal\<lparr>roomCode := ''ABCD-1234'', displayName := ''bob'', step := DetailsStep,
           roomInfo := Some \<lparr>ri_title = ''Open'', ri_description = None,
                              requiresPassword = False\<rparr>\<rparr>))
     ''blacksite_session''
     = Some (SessionJson \<lparr>se_roomCode = ''ABCD-1234'', se_displayName = ''bob'', se_joinedAt = 7\<rparr>)
   \<and> onJoinSuccess_calls
       (joinRoom hashString sampleBackend 7
          (initialModal\<lparr>roomCode := ''ABCD-1234'', displayName := ''bob'', step := DetailsStep,
             roomInfo := Some \<lparr>ri_title = ''Open'', ri_description = None,
                                requiresPassword = False\<rparr>\<rparr>))
       = [(''ABCD-1234'', ''bob'')]
   \<and> r_password_hash lockedRoom \<noteq> None"
  by (simp add: joinRoom_def Let_def initialModal_def sampleBackend_def lockedRoom_def
      expiredRoom_def trollBan_def selectRoomByCode_def passwordRejected_def formatDisplayName_def
      trim_def isWhiteSpace_def isDisplayNameBanned_def selectBans_def bans_policy_def
      notify_def resetModal_def
      plain_def)

text \<open>
  The ban lookup under the row security of \<open>bans\<close>: it never answers true, whatever the
  table holds, and \<open>joinRoom\<close> behaves the same whatever the table holds.
\<close>

lemma isDisplayNameBanned_never_true:
  "isDisplayNameBanned be now roomId name \<noteq> Some True"
  by (cases "bans_link be") (simp_all add: isDisplayNameBanned_def selectBans_def bans_policy_def)

lemma joinRoom_blind_to_bans:
  "joinRoom hashString (be\<lparr>bans := bs\<rparr>) now s = joinRoom hashString be now s"
proof -
  have 1: "isDisplayNameBanned (be\<lparr>bans := bs\<rparr>) now r n = isDisplayNameBanned be now r n" for r n
    by (simp add: isDisplayNameBanned_def selectBans_def bans_policy_def)
  have 2: "selectRoomByCode (be\<lparr>bans := bs\<rparr>) c = selectRoomByCode be c" for c
    by (simp add: selectRoomByCode_def)
  show ?thesis unfolding joinRoom_def by (simp only: 1 2)
qed

text \<open>
  C3, at the input where the code departs from it. The table \<open>bans\<close> holds a row for the
  locked room and the name \<open>troll\<close>, without expiry, so in force. The join gate of
  RoomPage, opened on the code of that room, stores the session for \<open>troll\<close> all the same:
  it asks the backend nothing. (The lookup that \<open>joinRoom\<close> makes does not see the row
  either: under the row security of \<open>bans\<close> it answers false.)
\<close>

theorem inlineJoin_ignores_ban:
  "trollBan \<in> set (bans sampleBackend)
   \<and> b_room_id trollBan = r_id lockedRoom
   \<and> r_code lockedRoom = ''ABCD-1234''
   \<and> b_display_name trollBan = formatDisplayName ''troll''
   \<and> banInForce 7 trollBan
   \<and> rp_localStorage (inlineJoin 7 ((initialPage ''ABCD-1234'')\<lparr>joinName := ''troll''\<rparr>))
       ''blacksite_session''
       = Some (SessionJson \<lparr>se_roomCode = ''ABCD-1234'', se_displayName = ''troll'',
                            se_joinedAt = 7\<rparr>)
   \<and> session (inlineJoin 7 ((initialPage ''ABCD-1234'')\<lparr>joinName := ''troll''\<rparr>))
       = Some \<lparr>ps_displayName = ''troll'', ps_isOwner = False, ps_ownerToken = None\<rparr>
   \<and> isDisplayNameBanned sampleBackend 7 (r_id lockedRoom) (formatDisplayName ''troll'')
       = Some False"
  by (simp add: inlineJoin_def Let_def initialPage_def sampleBackend_def lockedRoom_def
      trollBan_def formatDisplayName_def trim_def isWhiteSpace_def isDisplayNameBanned_def
      selectBans_def bans_policy_def banInForce_def getItem_def)

section \<open>The post composer\<close>

text \<open>
  C7. When there is something to post, the uploads go through and the insert into
  \<open>posts\<close> fails (an error in the reply, or a rejected request), \<open>handlePost\<close> leaves the
  content and the selected files as they were, shows exactly one more notification, the
  destructive \<open>Error\<close> one, has sent exactly one insert request, and does not call
  \<open>onPostCreated\<close>.
\<close>

theorem handlePost_insert_failure:
  assumes "trim (content s) \<noteq> [] \<or> files s \<noteq> []"
    and "uploadSelectedFiles sv (files s) = (sent, Inr mediaUploads)"
    and "payload = \<lparr>pl_room_id = pc_roomId s, pl_author_display = pc_displayName s,
                     pl_content = trim (content s), pl_media = mediaUploads\<rparr>"
    and "posts_insert sv payload \<noteq> Done"
  shows "content (handlePost sv s) = content s
         \<and> files (handlePost sv s) = files s
         \<and> (\<exists>d. pc_toasts (handlePost sv s) = pc_toasts s @ [destructive ''Error'' d])
         \<and> posts_requests (handlePost sv s) = posts_requests s @ [payload]
         \<and> onPostCreated_calls (handlePost sv s) = onPostCreated_calls s
         \<and> isPosting (handlePost sv s) = False"
proof (cases "posts_insert sv payload")
  case Done
  then show ?thesis using assms(4) by simp
next
  case (Errored e)
  then have "handlePost sv s =
      s\<lparr>uploads_done := uploads_done s @ sent, posts_requests := posts_requests s @ [payload],
        pc_toasts := pc_toasts s @ [errorToast e], isPosting := False\<rparr>"
    using assms(1,2) by (auto simp add: handlePost_def Let_def assms(3)[symmetric])
  then show ?thesis by (auto simp add: errorToast_def)
next
  case (Threw e)
  then have "handlePost sv s =
      s\<lparr>uploads_done := uploads_done s @ sent, posts_requests := posts_requests s @ [payload],
        pc_toasts := pc_toasts s @ [errorToast e], isPosting := False\<rparr>"
    using assms(1,2) by (auto simp add: handlePost_def Let_def assms(3)[symmetric])
  then show ?thesis by (auto simp add: errorToast_def)
qed

theorem handlePost_insert_failure_witness:
  "content (handlePost refusingServices ((initialComposer ''room-1'' ''bob'')\<lparr>content := ''hello''\<rparr>))
     = ''hello''
   \<and> files (handlePost refusingServices ((initialComposer ''room-1'' ''bob'')\<lparr>content := ''hello''\<rparr>))
     = []
   \<and> pc_toasts (handlePost refusingServices ((initialComposer ''room-1'' ''bob'')\<lparr>content := ''hello''\<rparr>))
     = [destructive ''Error'' ''Failed to create post. Please try again.'']
   \<and> posts_requests (handlePost refusingServices ((initialComposer ''room-1'' ''bob'')\<lparr>content := ''hello''\<rparr>))
     = [\<lparr>pl_room_id = ''room-1'', pl_author_display = ''bob'', pl_content = ''hello'', pl_media = []\<rparr>]"
proof -
  let ?s = "(initialComposer ''room-1'' ''bob'')\<lparr>content := ''hello''\<rparr>"
  let ?p = "\<lparr>pl_room_id = ''room-1'', pl_author_display = ''bob'', pl_content = ''hello'', pl_media = []\<rparr>"
  have t: "trim ''hello'' = ''hello''" by (simp add: trim_def isWhiteSpace_def)
  have 1: "trim (content ?s) \<noteq> [] \<or> files ?s \<noteq> []" by (simp add: t)
  have 2: "uploadSelectedFiles refusingServices (files ?s) = ([], Inr [])"
    by (simp add: initialComposer_def)
  have 3: "?p = \<lparr>pl_room_id = pc_roomId ?s, pl_author_display = pc_displayName ?s,
                     pl_content = trim (content ?s), pl_media = []\<rparr>"
    by (simp add: initialComposer_def t)
  have 4: "posts_insert refusingServices ?p \<noteq> Done" by (simp add: refusingServices_def)
  have 5: "content ?s = ''hello''" "files ?s = []" "pc_toasts ?s = []" "posts_requests ?s = []"
    by (simp_all add: initialComposer_def)
  have 6: "pc_toasts (handlePost refusingServices ?s)
      = [destructive ''Error'' ''Failed to create post. Please try again.'']"
    by (simp add: handlePost_def Let_def initialComposer_def t refusingServices_def errorToast_def)
  show ?thesis
    using handlePost_insert_failure [OF 1 2 3 4] 6 by (simp only: 5 append_Nil)
qed

section \<open>Loading the posts of a room\<close>

text \<open>
  C6. When the query of \<open>loadPosts\<close> is answered, the list it produces holds no post whose
  \<open>deleted_at\<close> is set: it holds exactly the posts of the room whose \<open>deleted_at\<close> is null.
\<close>

theorem loadPosts_hides_deleted:
  assumes "posts_link db = Up"
  shows "(\<forall>p. p_deleted_at p \<noteq> None \<longrightarrow> p \<notin> set (map pp_post (loadPosts db roomId old)))
         \<and> set (map pp_post (loadPosts db roomId old))
             = {p \<in> set (posts db). p_room_id p = roomId \<and> p_deleted_at p = None}"
proof -
  have "map pp_post (loadPosts db roomId old)
      = sort_key (\<lambda>p. - p_created_at p)
          (filter (\<lambda>p. posts_policy p \<and> p_room_id p = roomId \<and> p_deleted_at p = None) (posts db))"
    using assms by (simp add: loadPosts_def selectPosts_def processPost_def comp_def map_idI)
  then have "set (map pp_post (loadPosts db roomId old))
             = {p \<in> set (posts db). p_room_id p = roomId \<and> p_deleted_at p = None}"
    by (auto simp add: posts_policy_def)
  then show ?thesis by simp
qed

theorem loadPosts_hides_deleted_witness:
  "deletedPost \<notin> set (map pp_post (loadPosts sampleContent ''room-1'' []))
   \<and> set (map pp_post (loadPosts sampleContent ''room-1'' [])) = {livePost}"
proof -
  have 1: "posts_link sampleContent = Up" by (simp add: sampleContent_def)
  have 2: "p_deleted_at deletedPost \<noteq> None" by (simp add: deletedPost_def)
  have 3: "{p \<in> set (posts sampleContent). p_room_id p = ''room-1'' \<and> p_deleted_at p = None}
      = {livePost}"
    by (auto simp add: sampleContent_def livePost_def deletedPost_def)
  show ?thesis
    using loadPosts_hides_deleted [OF 1, of "''room-1''" "[]"] 2 3
    by (simp add: livePost_def deletedPost_def)
qed

section \<open>Threading the comments\<close>

subsection \<open>The two passes\<close>

lemma firstPass_store:
  "fst (firstPass cs (h, m)) = h @ map (\<lambda>c. \<lparr>cmt = c, replies = []\<rparr>) cs"
  by (induction cs arbitrary: h m) simp_all

lemma firstPass_other:
  "k \<notin> c_id ` set cs \<Longrightarrow> snd (firstPass cs (h, m)) k = m k"
  by (induction cs arbitrary: h m) simp_all

lemma firstPass_dom:
  "k \<in> c_id ` set cs \<Longrightarrow> \<exists>a. snd (firstPass cs (h, m)) k = Some a"
proof (induction cs arbitrary: h m)
  case Nil
  then show ?case by simp
next
  case (Cons x xs)
  show ?case
  proof (cases "k \<in> c_id ` set xs")
    case True
    then show ?thesis using Cons.IH by simp
  next
    case False
    then have "k = c_id x" using Cons.prems by auto
    then show ?thesis using False by (simp add: firstPass_other)
  qed
qed

lemma firstPass_points:
  "snd (firstPass cs (h, m)) k = Some a \<Longrightarrow>
     (m k = Some a \<and> k \<notin> c_id ` set cs)
     \<or> (length h \<le> a \<and> a < length h + length cs \<and> c_id (cs ! (a - length h)) = k)"
proof (induction cs arbitrary: h m)
  case Nil
  then show ?case by simp
next
  case (Cons x xs)
  from Cons.prems have "snd (firstPass xs (h @ [\<lparr>cmt = x, replies = []\<rparr>], m(c_id x \<mapsto> length h))) k = Some a"
    by simp
  from Cons.IH [OF this] show ?case
  proof
    assume A: "(m(c_id x \<mapsto> length h)) k = Some a \<and> k \<notin> c_id ` set xs"
    show ?thesis
    proof (cases "k = c_id x")
      case True
      then show ?thesis using A by simp
    next
      case False
      then show ?thesis using A by simp
    qed
  next
    assume B: "length (h @ [\<lparr>cmt = x, replies = []\<rparr>]) \<le> a
      \<and> a < length (h @ [\<lparr>cmt = x, replies = []\<rparr>]) + length xs
      \<and> c_id (xs ! (a - length (h @ [\<lparr>cmt = x, replies = []\<rparr>]))) = k"
    then have "a - length h = Suc (a - Suc (length h))" by (simp add: Suc_diff_Suc Suc_le_lessD)
    then show ?thesis using B by simp
  qed
qed

lemma firstPass_index:
  "distinct (map c_id cs) \<Longrightarrow> i < length cs \<Longrightarrow>
     snd (firstPass cs (h, m)) (c_id (cs ! i)) = Some (length h + i)"
proof (induction cs arbitrary: h m i)
  case Nil
  then show ?case by simp
next
  case (Cons x xs)
  show ?case
  proof (cases i)
    case 0
    then show ?thesis using Cons.prems by (simp add: firstPass_other)
  next
    case (Suc j)
    then show ?thesis using Cons.prems Cons.IH [of j "h @ [\<lparr>cmt = x, replies = []\<rparr>]"] by simp
  qed
qed

lemma pushReply_length [simp]: "length (pushReply p x h) = length h"
  by (simp add: pushReply_def)

lemma pushReply_cmt [simp]: "cmt (pushReply p x h ! a) = cmt (h ! a)"
  by (cases "a = p"; cases "p < length h") (simp_all add: pushReply_def list_update_beyond)

lemma pushReply_replies:
  "a < length h \<Longrightarrow>
     replies (pushReply p x h ! a) = (if a = p then replies (h ! a) @ [x] else replies (h ! a))"
  by (simp add: pushReply_def)

lemma secondPass_effect:
  "secondPass m cs (h, rs) = (h', rs') \<Longrightarrow>
     length h' = length h
     \<and> (\<forall>a. cmt (h' ! a) = cmt (h ! a))
     \<and> (\<forall>p < length h. replies (h' ! p) = replies (h ! p) @ pushedTo m cs p)
     \<and> rs' = rs @ rootRefs m cs"
proof (induction cs arbitrary: h rs)
  case Nil
  then show ?case by (simp add: pushedTo_def rootRefs_def)
next
  case (Cons c cs)
  have pt: "pushedTo m (c # cs) p =
      (case m (c_id c) of None \<Rightarrow> []
       | Some a \<Rightarrow> if truthy (c_parent_comment_id c) \<and> m (the (c_parent_comment_id c)) = Some p
                   then [a] else []) @ pushedTo m cs p" for p
    by (simp add: pushedTo_def)
  have rr: "rootRefs m (c # cs) =
      (case m (c_id c) of None \<Rightarrow> []
       | Some a \<Rightarrow> if truthy (c_parent_comment_id c) then [] else [a]) @ rootRefs m cs"
    by (simp add: rootRefs_def)
  show ?case
  proof (cases "m (c_id c)")
    case None
    then have "secondPass m cs (h, rs) = (h', rs')" using Cons.prems by simp
    from Cons.IH [OF this] show ?thesis by (simp add: pt rr None)
  next
    case (Some x)
    show ?thesis
    proof (cases "truthy (c_parent_comment_id c)")
      case False
      then have "secondPass m cs (h, rs @ [x]) = (h', rs')" using Cons.prems Some by simp
      from Cons.IH [OF this] show ?thesis by (simp add: pt rr Some False)
    next
      case True
      show ?thesis
      proof (cases "m (the (c_parent_comment_id c))")
        case None
        then have "secondPass m cs (h, rs) = (h', rs')" using Cons.prems Some True by simp
        from Cons.IH [OF this] show ?thesis by (simp add: pt rr Some True None)
      next
        case (Some q)
        then have "secondPass m cs (pushReply q x h, rs) = (h', rs')"
          using Cons.prems \<open>m (c_id c) = Some x\<close> True by simp
        from Cons.IH [OF this] show ?thesis
          by (simp add: pt rr \<open>m (c_id c) = Some x\<close> True Some pushReply_replies)
      qed
    qed
  qed
qed

subsection \<open>What organizeComments builds\<close>

lemma commentMapOf_points:
  assumes "commentMapOf flat k = Some a"
  shows "a < length flat" and "c_id (flat ! a) = k"
  using firstPass_points [of flat "[]" Map.empty k a] assms
  by (simp_all add: commentMapOf_def)

lemma commentMapOf_dom:
  "c \<in> set flat \<Longrightarrow> \<exists>a. commentMapOf flat (c_id c) = Some a"
  using firstPass_dom [of "c_id c" flat "[]" Map.empty] by (simp add: commentMapOf_def)

lemma commentMapOf_index:
  "distinct (map c_id flat) \<Longrightarrow> i < length flat \<Longrightarrow> commentMapOf flat (c_id (flat ! i)) = Some i"
  using firstPass_index [of flat i "[]" Map.empty] by (simp add: commentMapOf_def)

lemma mem_pushedTo:
  "x \<in> set (pushedTo m cs p) \<longleftrightarrow>
     (\<exists>c \<in> set cs. m (c_id c) = Some x \<and> truthy (c_parent_comment_id c)
                   \<and> m (the (c_parent_comment_id c)) = Some p)"
  unfolding pushedTo_def by (induction cs) (auto split: option.splits)

lemma mem_rootRefs:
  "x \<in> set (rootRefs m cs) \<longleftrightarrow>
     (\<exists>c \<in> set cs. m (c_id c) = Some x \<and> \<not> truthy (c_parent_comment_id c))"
  unfolding rootRefs_def by (induction cs) (auto split: option.splits)

lemma organizeComments_effect:
  assumes "organizeComments flat = (h, roots)"
  shows "length h = length flat"
    and "\<And>a. a < length flat \<Longrightarrow> cmt (h ! a) = flat ! a"
    and "\<And>p. p < length flat \<Longrightarrow> replies (h ! p) = pushedTo (commentMapOf flat) flat p"
    and "roots = sort_key (\<lambda>a. c_created_at (cmt (h ! a))) (rootRefs (commentMapOf flat) flat)"
proof -
  let ?h0 = "map (\<lambda>c. \<lparr>cmt = c, replies = []\<rparr>) flat"
  have fp: "firstPass flat ([], Map.empty) = (?h0, commentMapOf flat)"
    using firstPass_store [of flat "[]" Map.empty]
    by (simp add: commentMapOf_def prod_eq_iff)
  obtain h1 rs where sp: "secondPass (commentMapOf flat) flat (?h0, []) = (h1, rs)"
    by (cases "secondPass (commentMapOf flat) flat (?h0, [])") simp
  have hr: "h = h1" "roots = sort_key (\<lambda>a. c_created_at (cmt (h1 ! a))) rs"
    using assms by (auto simp add: organizeComments_def fp sp)
  note eff = secondPass_effect [OF sp]
  show "length h = length flat" using eff hr by simp
  show "cmt (h ! a) = flat ! a" if "a < length flat" for a using eff hr that by simp
  show "replies (h ! p) = pushedTo (commentMapOf flat) flat p" if "p < length flat" for p
    using eff hr that by simp
  show "roots = sort_key (\<lambda>a. c_created_at (cmt (h ! a))) (rootRefs (commentMapOf flat) flat)"
    using eff hr by simp
qed

text \<open>
  C1, as the code has it. When no comment of the list replies to a reply, that is, no
  \<open>parent_comment_id\<close> of the list is the id of a comment that has a parent itself, the
  tree is one level deep: every reference in the \<open>replies\<close> array of a root points to an
  object whose own \<open>replies\<close> array is empty, and depth two of the tree is empty.
\<close>

theorem organizeComments_single_level:
  assumes "\<forall>c \<in> set flat. \<forall>d \<in> set flat.
             truthy (c_parent_comment_id c) \<and> c_parent_comment_id c = Some (c_id d)
               \<longrightarrow> \<not> truthy (c_parent_comment_id d)"
    and "organizeComments flat = (h, roots)"
  shows "(\<forall>r \<in> set roots. \<forall>x \<in> set (replies (h ! r)). replies (h ! x) = [])
         \<and> tree_level h roots (Suc (Suc 0)) = []"
proof -
  let ?m = "commentMapOf flat"
  note eff = organizeComments_effect [OF assms(2)]
  have leaf: "replies (h ! x) = []" if r: "r \<in> set roots" and x: "x \<in> set (replies (h ! r))" for r x
  proof -
    have "r \<in> set (rootRefs ?m flat)" using r eff(4) by simp
    then have rl: "r < length flat" using commentMapOf_points(1) by (auto simp add: mem_rootRefs)
    then have "x \<in> set (pushedTo ?m flat r)" using x eff(3) by simp
    then obtain c where c: "c \<in> set flat" "?m (c_id c) = Some x" "truthy (c_parent_comment_id c)"
      by (auto simp add: mem_pushedTo)
    have xl: "x < length flat" and xid: "c_id (flat ! x) = c_id c"
      using commentMapOf_points [OF c(2)] by simp_all
    have "pushedTo ?m flat x = []"
    proof (rule ccontr)
      assume "pushedTo ?m flat x \<noteq> []"
      then obtain y where "y \<in> set (pushedTo ?m flat x)" by (cases "pushedTo ?m flat x") auto
      then obtain e where e: "e \<in> set flat" "truthy (c_parent_comment_id e)"
          "?m (the (c_parent_comment_id e)) = Some x"
        by (auto simp add: mem_pushedTo)
      have "the (c_parent_comment_id e) = c_id c"
        using commentMapOf_points(2) [OF e(3)] xid by simp
      moreover obtain q where "c_parent_comment_id e = Some q"
        using e(2) by (cases "c_parent_comment_id e") simp_all
      ultimately have "c_parent_comment_id e = Some (c_id c)" by simp
      then have "\<not> truthy (c_parent_comment_id c)" using assms(1) e(1,2) c(1) by blast
      then show False using c(3) by simp
    qed
    then show ?thesis using eff(3) xl by simp
  qed
  then have "tree_level h roots (Suc (Suc 0)) = []" by simp
  then show ?thesis using leaf by blast
qed

theorem organizeComments_single_level_witness:
  "snd (organizeComments [replyComment, topComment, orphanReply]) = [1]
   \<and> replies (fst (organizeComments [replyComment, topComment, orphanReply]) ! 1) = [0]
   \<and> replies (fst (organizeComments [replyComment, topComment, orphanReply]) ! 0) = []
   \<and> tree_level (fst (organizeComments [replyComment, topComment, orphanReply]))
        (snd (organizeComments [replyComment, topComment, orphanReply])) (Suc (Suc 0)) = []"
proof -
  let ?flat = "[replyComment, topComment, orphanReply]"
  have 1: "\<forall>c \<in> set ?flat. \<forall>d \<in> set ?flat.
             truthy (c_parent_comment_id c) \<and> c_parent_comment_id c = Some (c_id d)
               \<longrightarrow> \<not> truthy (c_parent_comment_id d)"
    by (simp add: replyComment_def topComment_def orphanReply_def)
  have 2: "organizeComments ?flat = (fst (organizeComments ?flat), snd (organizeComments ?flat))"
    by simp
  have 3: "snd (organizeComments ?flat) = [1]"
      "replies (fst (organizeComments ?flat) ! 1) = [0]"
    by (simp_all add: organizeComments_def replyComment_def topComment_def orphanReply_def
        pushReply_def)
  show ?thesis
    using organizeComments_single_level [OF 1 2] 3 by simp
qed

text \<open>
  C1, as the claim states it, fails: for a comment, a reply to it and a reply to that
  reply, the root (address 0) holds the reply (address 1) in its \<open>replies\<close> array, and the
  \<open>replies\<close> array of that reply is not empty: it holds the third comment (address 2), at
  depth two.
\<close>

theorem organizeComments_depth_counterexample:
  "snd (organizeComments [topComment, replyComment, nestedReply]) = [0]
   \<and> replies (fst (organizeComments [topComment, replyComment, nestedReply]) ! 0) = [1]
   \<and> replies (fst (organizeComments [topComment, replyComment, nestedReply]) ! 1) = [2]
   \<and> tree_level (fst (organizeComments [topComment, replyComment, nestedReply]))
        (snd (organizeComments [topComment, replyComment, nestedReply])) (Suc (Suc 0)) = [2]"
  by (simp add: organizeComments_def topComment_def replyComment_def nestedReply_def pushReply_def)

subsection \<open>Where each comment ends up\<close>

lemma distinct_concat_map:
  assumes "distinct xs"
    and "\<And>x. x \<in> set xs \<Longrightarrow> distinct (f x)"
    and "\<And>x y. x \<in> set xs \<Longrightarrow> y \<in> set xs \<Longrightarrow> x \<noteq> y \<Longrightarrow> set (f x) \<inter> set (f y) = {}"
  shows "distinct (concat (map f xs))"
  using assms
proof (induction xs)
  case Nil
  then show ?case by simp
next
  case (Cons x xs)
  have "distinct (concat (map f xs))" using Cons by simp
  moreover have "distinct (f x)" using Cons.prems(2) by simp
  moreover have "set (f x) \<inter> set (f y) = {}" if "y \<in> set xs" for y
    using Cons.prems(1) Cons.prems(3) [of x y] that by auto
  ultimately show ?case by auto
qed

lemma distinct_count_list: "distinct xs \<Longrightarrow> x \<in> set xs \<Longrightarrow> count_list xs x = 1"
  by (induction xs) (auto simp add: count_list_0_iff)

lemma comment_at_address:
  assumes "distinct (map c_id flat)" and "c \<in> set flat" and "commentMapOf flat (c_id c) = Some a"
  shows "flat ! a = c"
proof -
  have a: "a < length flat" "c_id (flat ! a) = c_id c"
    using commentMapOf_points [OF assms(3)] by simp_all
  have "inj_on c_id (set flat)" using assms(1) by (simp add: distinct_map)
  moreover have "flat ! a \<in> set flat" using a(1) by simp
  ultimately show ?thesis using a(2) assms(2) by (simp add: inj_on_def)
qed

lemma same_address:
  assumes "distinct (map c_id flat)" and "c \<in> set flat" and "d \<in> set flat"
    and "commentMapOf flat (c_id c) = commentMapOf flat (c_id d)"
  shows "c = d"
proof -
  obtain a where a: "commentMapOf flat (c_id c) = Some a"
    using commentMapOf_dom [OF assms(2)] by blast
  then have "commentMapOf flat (c_id d) = Some a" using assms(4) by simp
  then show ?thesis
    using comment_at_address [OF assms(1,2) a] comment_at_address [OF assms(1,3)] by simp
qed

lemma distinct_pushedTo:
  assumes "distinct (map c_id flat)"
  shows "distinct (pushedTo (commentMapOf flat) flat p)"
  unfolding pushedTo_def
proof (rule distinct_concat_map)
  show "distinct flat" using assms by (simp add: distinct_map)
next
  fix c
  show "distinct (case commentMapOf flat (c_id c) of None \<Rightarrow> []
      | Some a \<Rightarrow> if truthy (c_parent_comment_id c)
                     \<and> commentMapOf flat (the (c_parent_comment_id c)) = Some p then [a] else [])"
    by (simp split: option.splits)
next
  fix c d
  assume "c \<in> set flat" "d \<in> set flat" "c \<noteq> d"
  then have "commentMapOf flat (c_id c) \<noteq> commentMapOf flat (c_id d)"
    using same_address [OF assms] by blast
  then show "set (case commentMapOf flat (c_id c) of None \<Rightarrow> []
      | Some a \<Rightarrow> if truthy (c_parent_comment_id c)
                     \<and> commentMapOf flat (the (c_parent_comment_id c)) = Some p then [a] else [])
    \<inter> set (case commentMapOf flat (c_id d) of None \<Rightarrow> []
      | Some a \<Rightarrow> if truthy (c_parent_comment_id d)
                     \<and> commentMapOf flat (the (c_parent_comment_id d)) = Some p then [a] else [])
    = {}"
    by (auto split: option.splits if_splits)
qed

lemma distinct_rootRefs:
  assumes "distinct (map c_id flat)"
  shows "distinct (rootRefs (commentMapOf flat) flat)"
  unfolding rootRefs_def
proof (rule distinct_concat_map)
  show "distinct flat" using assms by (simp add: distinct_map)
next
  fix c
  show "distinct (case commentMapOf flat (c_id c) of None \<Rightarrow> []
      | Some a \<Rightarrow> if truthy (c_parent_comment_id c) then [] else [a])"
    by (simp split: option.splits)
next
  fix c d
  assume "c \<in> set flat" "d \<in> set flat" "c \<noteq> d"
  then have "commentMapOf flat (c_id c) \<noteq> commentMapOf flat (c_id d)"
    using same_address [OF assms] by blast
  then show "set (case commentMapOf flat (c_id c) of None \<Rightarrow> []
      | Some a \<Rightarrow> if truthy (c_parent_comment_id c) then [] else [a])
    \<inter> set (case commentMapOf flat (c_id d) of None \<Rightarrow> []
      | Some a \<Rightarrow> if truthy (c_parent_comment_id d) then [] else [a])
    = {}"
    by (auto split: option.splits if_splits)
qed

lemma pushedTo_disjoint:
  assumes "distinct (map c_id flat)" and "p \<noteq> q"
  shows "set (pushedTo (commentMapOf flat) flat p) \<inter> set (pushedTo (commentMapOf flat) flat q) = {}"
proof (rule ccontr)
  assume "set (pushedTo (commentMapOf flat) flat p) \<inter> set (pushedTo (commentMapOf flat) flat q) \<noteq> {}"
  then obtain x where "x \<in> set (pushedTo (commentMapOf flat) flat p)"
      "x \<in> set (pushedTo (commentMapOf flat) flat q)" by blast
  then obtain c d where c: "c \<in> set flat" "commentMapOf flat (c_id c) = Some x"
      "commentMapOf flat (the (c_parent_comment_id c)) = Some p"
    and d: "d \<in> set flat" "commentMapOf flat (c_id d) = Some x"
      "commentMapOf flat (the (c_parent_comment_id d)) = Some q"
    by (auto simp add: mem_pushedTo)
  have "c = d" using comment_at_address [OF assms(1) c(1,2)] comment_at_address [OF assms(1) d(1,2)]
    by simp
  then show False using c(3) d(3) assms(2) by simp
qed

lemma tree_level_char:
  assumes "distinct (map c_id flat)" and "organizeComments flat = (h, roots)"
  shows "distinct (tree_level h roots d)
         \<and> set (tree_level h roots d) = {a. a < length flat \<and> rooted flat d (flat ! a)}"
proof (induction d)
  case 0
  let ?m = "commentMapOf flat"
  note eff = organizeComments_effect [OF assms(2)]
  have "distinct roots" using eff(4) distinct_rootRefs [OF assms(1)] by simp
  moreover have "set roots = {a. a < length flat \<and> \<not> truthy (c_parent_comment_id (flat ! a))}"
  proof (rule set_eqI)
    fix a
    have "a \<in> set roots \<longleftrightarrow> a \<in> set (rootRefs ?m flat)" using eff(4) by simp
    also have "\<dots> \<longleftrightarrow> a < length flat \<and> \<not> truthy (c_parent_comment_id (flat ! a))"
    proof
      assume "a \<in> set (rootRefs ?m flat)"
      then obtain c where c: "c \<in> set flat" "?m (c_id c) = Some a"
          "\<not> truthy (c_parent_comment_id c)"
        by (auto simp add: mem_rootRefs)
      then show "a < length flat \<and> \<not> truthy (c_parent_comment_id (flat ! a))"
        using comment_at_address [OF assms(1) c(1,2)] commentMapOf_points(1) [OF c(2)] by simp
    next
      assume a: "a < length flat \<and> \<not> truthy (c_parent_comment_id (flat ! a))"
      then have "flat ! a \<in> set flat" "?m (c_id (flat ! a)) = Some a"
        using commentMapOf_index [OF assms(1)] by simp_all
      then show "a \<in> set (rootRefs ?m flat)" using a by (auto simp add: mem_rootRefs)
    qed
    finally show "a \<in> set roots \<longleftrightarrow>
        a \<in> {a. a < length flat \<and> \<not> truthy (c_parent_comment_id (flat ! a))}"
      by simp
  qed
  ultimately show ?case by simp
next
  case (Suc d)
  let ?m = "commentMapOf flat"
  note eff = organizeComments_effect [OF assms(2)]
  have inb: "a < length flat" if "a \<in> set (tree_level h roots d)" for a using Suc that by simp
  have rep: "replies (h ! a) = pushedTo ?m flat a" if "a \<in> set (tree_level h roots d)" for a
    using eff(3) inb that by simp
  have lev: "tree_level h roots (Suc d) = concat (map (pushedTo ?m flat) (tree_level h roots d))"
    using rep by (simp cong: map_cong)
  have "distinct (tree_level h roots (Suc d))"
    unfolding lev
  proof (rule distinct_concat_map)
    show "distinct (tree_level h roots d)" using Suc by simp
    show "distinct (pushedTo ?m flat a)" for a by (rule distinct_pushedTo [OF assms(1)])
    show "set (pushedTo ?m flat a) \<inter> set (pushedTo ?m flat b) = {}" if "a \<noteq> b" for a b
      by (rule pushedTo_disjoint [OF assms(1) that])
  qed
  moreover have "set (tree_level h roots (Suc d))
      = {x. x < length flat \<and> rooted flat (Suc d) (flat ! x)}"
  proof (rule set_eqI)
    fix x
    show "x \<in> set (tree_level h roots (Suc d))
        \<longleftrightarrow> x \<in> {x. x < length flat \<and> rooted flat (Suc d) (flat ! x)}"
    proof
      assume "x \<in> set (tree_level h roots (Suc d))"
      then obtain a where a: "a \<in> set (tree_level h roots d)" "x \<in> set (pushedTo ?m flat a)"
        unfolding lev by auto
      then obtain c where c: "c \<in> set flat" "?m (c_id c) = Some x"
          "truthy (c_parent_comment_id c)" "?m (the (c_parent_comment_id c)) = Some a"
        by (auto simp add: mem_pushedTo)
      have cx: "flat ! x = c" and xl: "x < length flat"
        using comment_at_address [OF assms(1) c(1,2)] commentMapOf_points(1) [OF c(2)] by simp_all
      have al: "a < length flat" and ar: "rooted flat d (flat ! a)" using Suc a(1) by simp_all
      have "c_id (flat ! a) = the (c_parent_comment_id c)"
        using commentMapOf_points(2) [OF c(4)] by simp
      moreover obtain q where "c_parent_comment_id c = Some q"
        using c(3) by (cases "c_parent_comment_id c") simp_all
      ultimately have "c_parent_comment_id c = Some (c_id (flat ! a))" by simp
      moreover have "flat ! a \<in> set flat" using al by simp
      ultimately have "rooted flat (Suc d) c" using c(3) ar by (auto simp add: list_ex_iff)
      then show "x \<in> {x. x < length flat \<and> rooted flat (Suc d) (flat ! x)}" using cx xl by simp
    next
      assume "x \<in> {x. x < length flat \<and> rooted flat (Suc d) (flat ! x)}"
      then have xl: "x < length flat" and t: "truthy (c_parent_comment_id (flat ! x))"
        and "\<exists>p \<in> set flat. c_parent_comment_id (flat ! x) = Some (c_id p) \<and> rooted flat d p"
        by (simp_all add: list_ex_iff)
      then obtain p where p: "p \<in> set flat" "c_parent_comment_id (flat ! x) = Some (c_id p)"
          "rooted flat d p" by blast
      obtain a where a: "a < length flat" "flat ! a = p" using p(1) by (auto simp add: in_set_conv_nth)
      have "a \<in> set (tree_level h roots d)" using Suc a p(3) by simp
      moreover have "?m (c_id (flat ! x)) = Some x" "?m (c_id (flat ! a)) = Some a"
        using commentMapOf_index [OF assms(1)] xl a(1) by simp_all
      then have "x \<in> set (pushedTo ?m flat a)"
        using xl t p(2) a(2) by (auto simp add: mem_pushedTo intro!: bexI [of _ "flat ! x"])
      ultimately show "x \<in> set (tree_level h roots (Suc d))" unfolding lev by auto
    qed
  qed
  ultimately show ?case by simp
qed

lemma rooted_depth_unique:
  assumes "distinct (map c_id flat)"
  shows "rooted flat d c \<Longrightarrow> rooted flat e c \<Longrightarrow> d = e"
proof (induction d arbitrary: c e)
  case 0
  then show ?case by (cases e) simp_all
next
  case (Suc d)
  then obtain e' where e: "e = Suc e'" by (cases e) simp_all
  obtain p where p: "p \<in> set flat" "c_parent_comment_id c = Some (c_id p)" "rooted flat d p"
    using Suc.prems(1) by (auto simp add: list_ex_iff)
  obtain q where q: "q \<in> set flat" "c_parent_comment_id c = Some (c_id q)" "rooted flat e' q"
    using Suc.prems(2) e by (auto simp add: list_ex_iff)
  have "inj_on c_id (set flat)" using assms by (simp add: distinct_map)
  then have "p = q" using p(1,2) q(1,2) by (simp add: inj_on_def)
  then show ?case using Suc.IH [OF p(3)] q(3) e by simp
qed

text \<open>
  C10, as the code has it. For a list of comments with distinct ids and a comment \<open>c\<close> of
  the list: if the chain of parent references of \<open>c\<close> leads, through comments of the list
  and in \<open>d\<close> steps, to a comment without parent, then \<open>c\<close> appears exactly once in the
  returned tree, at depth \<open>d\<close>, and at no other depth; if no such chain exists, \<open>c\<close>
  appears nowhere in the tree. In particular a comment without parent appears exactly once,
  as a root, and a comment whose parent is set and matches no id of the list is dropped; a
  comment whose parent is in the list shares the fate of that parent.
\<close>

theorem organizeComments_placement:
  assumes "distinct (map c_id flat)" and "c \<in> set flat"
    and "organizeComments flat = (h, roots)"
  shows "(rooted flat d c \<longrightarrow>
            count_list (map (\<lambda>a. cmt (h ! a)) (tree_level h roots d)) c = 1
            \<and> (\<forall>e. e \<noteq> d \<longrightarrow> c \<notin> set (map (\<lambda>a. cmt (h ! a)) (tree_level h roots e))))
         \<and> ((\<forall>k. \<not> rooted flat k c) \<longrightarrow>
              (\<forall>e. c \<notin> set (map (\<lambda>a. cmt (h ! a)) (tree_level h roots e))))
         \<and> (\<not> truthy (c_parent_comment_id c) \<longrightarrow>
              count_list (map (\<lambda>a. cmt (h ! a)) roots) c = 1)
         \<and> (truthy (c_parent_comment_id c) \<and> the (c_parent_comment_id c) \<notin> c_id ` set flat \<longrightarrow>
              (\<forall>e. c \<notin> set (map (\<lambda>a. cmt (h ! a)) (tree_level h roots e))))"
proof -
  note eff = organizeComments_effect [OF assms(3)]
  have df: "distinct flat" using assms(1) by (simp add: distinct_map)
  have K: "distinct (map (\<lambda>a. cmt (h ! a)) (tree_level h roots e))
      \<and> (c \<in> set (map (\<lambda>a. cmt (h ! a)) (tree_level h roots e)) \<longleftrightarrow> rooted flat e c)" for e
  proof -
    note lc = tree_level_char [OF assms(1,3), of e]
    have m: "map (\<lambda>a. cmt (h ! a)) (tree_level h roots e) = map ((!) flat) (tree_level h roots e)"
      using lc eff(2) by (simp cong: map_cong)
    have "inj_on ((!) flat) (set (tree_level h roots e))"
      using lc df by (auto simp add: inj_on_def nth_eq_iff_index_eq)
    then have "distinct (map ((!) flat) (tree_level h roots e))" using lc by (simp add: distinct_map)
    moreover have "c \<in> set (map ((!) flat) (tree_level h roots e)) \<longleftrightarrow> rooted flat e c"
    proof
      assume "c \<in> set (map ((!) flat) (tree_level h roots e))"
      then show "rooted flat e c" using lc by auto
    next
      assume r: "rooted flat e c"
      obtain i where "i < length flat" "flat ! i = c" using assms(2) by (auto simp add: in_set_conv_nth)
      then have "i \<in> set (tree_level h roots e)" using lc r by simp
      then show "c \<in> set (map ((!) flat) (tree_level h roots e))"
        using \<open>flat ! i = c\<close> by force
    qed
    ultimately show ?thesis by (simp only: m)
  qed
  have A: "count_list (map (\<lambda>a. cmt (h ! a)) (tree_level h roots d)) c = 1
       \<and> (\<forall>e. e \<noteq> d \<longrightarrow> c \<notin> set (map (\<lambda>a. cmt (h ! a)) (tree_level h roots e)))"
    if r: "rooted flat d c"
  proof -
    have "count_list (map (\<lambda>a. cmt (h ! a)) (tree_level h roots d)) c = 1"
      using K [of d] r by (simp add: distinct_count_list)
    moreover have "c \<notin> set (map (\<lambda>a. cmt (h ! a)) (tree_level h roots e))" if "e \<noteq> d" for e
      using K [of e] rooted_depth_unique [OF assms(1) r, of e] that by blast
    ultimately show ?thesis by blast
  qed
  have B: "\<forall>e. c \<notin> set (map (\<lambda>a. cmt (h ! a)) (tree_level h roots e))"
    if "\<forall>k. \<not> rooted flat k c"
    using K that by blast
  have C: "count_list (map (\<lambda>a. cmt (h ! a)) roots) c = 1" if "\<not> truthy (c_parent_comment_id c)"
    using K [of 0] that by (simp add: distinct_count_list)
  have D: "\<forall>e. c \<notin> set (map (\<lambda>a. cmt (h ! a)) (tree_level h roots e))"
    if t: "truthy (c_parent_comment_id c) \<and> the (c_parent_comment_id c) \<notin> c_id ` set flat"
  proof -
    have "\<not> rooted flat k c" for k
      using t by (cases k) (auto simp add: list_ex_iff)
    then show ?thesis using K by blast
  qed
  show ?thesis using A B C D by blast
qed

theorem organizeComments_placement_witness:
  "count_list
     (map (\<lambda>a. cmt (fst (organizeComments [nestedReply, orphanReply, replyComment, topComment]) ! a))
        (tree_level (fst (organizeComments [nestedReply, orphanReply, replyComment, topComment]))
           (snd (organizeComments [nestedReply, orphanReply, replyComment, topComment]))
           (Suc (Suc 0))))
     nestedReply = 1
   \<and> rooted [nestedReply, orphanReply, replyComment, topComment] (Suc (Suc 0)) nestedReply"
proof -
  let ?flat = "[nestedReply, orphanReply, replyComment, topComment]"
  have 1: "distinct (map c_id ?flat)"
    by (simp add: nestedReply_def orphanReply_def replyComment_def topComment_def)
  have 2: "nestedReply \<in> set ?flat" by simp
  have 3: "organizeComments ?flat = (fst (organizeComments ?flat), snd (organizeComments ?flat))"
    by simp
  have 4: "rooted ?flat (Suc (Suc 0)) nestedReply"
    by (simp add: nestedReply_def orphanReply_def replyComment_def topComment_def)
  show ?thesis
    using organizeComments_placement [OF 1 2 3, of "Suc (Suc 0)"] 4 by blast
qed

text \<open>
  C10, as the claim states it, fails: in the list of a reply whose parent is not in the
  list and a reply to that reply, the ids are distinct and the second comment has for
  parent the id of a comment of the list, yet the tree returned is empty, so the second
  comment appears nowhere in it.
\<close>

theorem organizeComments_dropped_counterexample:
  "distinct (map c_id [replyComment, nestedReply])
   \<and> c_parent_comment_id nestedReply = Some (c_id replyComment)
   \<and> replyComment \<in> set [replyComment, nestedReply]
   \<and> snd (organizeComments [replyComment, nestedReply]) = []"
  by (simp add: organizeComments_def replyComment_def nestedReply_def pushReply_def)

end
